theory Spec2Isabelle
  imports Complex_Main "HOL-Library.AList"
begin

section \<open>Data model\<close>

text \<open>
  The three mongoose schemas of \<^verbatim>\<open>models/\<close>. An ObjectId is a natural number; the
  \<^verbatim>\<open>String\<close> fields that hold money (\<^verbatim>\<open>price\<close>, \<^verbatim>\<open>total\<close>) are decimals, modelled as
  rationals; \<^verbatim>\<open>Number\<close> fields that hold counts are unbounded integers. JavaScript
  computes \<^verbatim>\<open>price * qty\<close> on IEEE doubles; the model takes the rational product, which
  is the same number wherever the double product is exact. The theorems below use the
  product only as the one amount that a call computes and adds or subtracts; none
  relates products of different quantities to each other.
\<close>

type_synonym object_id = nat
type_synonym decimal = rat

record product =
  title :: string
  price :: decimal
  inventory_count :: int

record cart_item =
  product_id :: object_id
  cart_id :: object_id
  qty :: int
  total :: decimal

record cart =
  items :: "object_id list"
  total :: decimal
  completed :: bool

text \<open>
  The database: one collection per model, each an association list from \<^verbatim>\<open>_id\<close> to
  document in insertion order (the order in which \<^verbatim>\<open>find\<close> returns documents).
  \<open>next_id\<close> is the ObjectId generator: \<^verbatim>\<open>new Model(...)\<close> takes the next unused id.
  \<^verbatim>\<open>findById\<close> is \<open>map_of\<close>, writing a document is \<open>AList.update\<close> (replace in place,
  or append a new document), removing one is \<open>AList.delete\<close>.
\<close>

record store =
  products :: "(object_id \<times> product) list"
  carts :: "(object_id \<times> cart) list"
  cart_items :: "(object_id \<times> cart_item) list"
  next_id :: object_id

text \<open>
  The \<^verbatim>\<open>Error\<close>s thrown in \<^verbatim>\<open>routes/graphql.js\<close>, one constructor per failure, with
  the values its message interpolates. \<open>TypeError\<close> is the JavaScript error
  of reading a property of \<^verbatim>\<open>null\<close>, which happens when \<^verbatim>\<open>populate('product_id')\<close> finds no
  product. \<open>ValidationError\<close> is what an awaited \<^verbatim>\<open>save()\<close> throws when a \<^verbatim>\<open>required\<close>
  string is empty.
\<close>

datatype error =
    InvalidQuantity int
  | CartNotFound object_id
  | ProductNotFound object_id
  | ItemNotInCart
  | CartAlreadyCompleted object_id
  | DanglingCartItem
  | InsufficientInventory object_id int int
  | NonExistingProduct
  | TypeError
  | ValidationError

text \<open>
  The \<^verbatim>\<open>CartObject\<close> an operation returns. Each element of \<^verbatim>\<open>items\<close> is \<^verbatim>\<open>x.toString()\<close>:
  the text of an ObjectId where the cart was loaded without \<^verbatim>\<open>populate\<close>, the text of the
  whole line-item document where it was loaded with \<^verbatim>\<open>populate('items')\<close>.
\<close>

datatype rendered = IdText object_id | DocText object_id cart_item

record cart_object =
  obj_id :: object_id
  obj_items :: "rendered list"
  obj_total :: decimal
  obj_completed :: bool

section \<open>Record store helpers\<close>

text \<open>
  Modelled from the spec: \<^verbatim>\<open>lib.addToTotal\<close> of \<^verbatim>\<open>lib/lib.js\<close>, which is not among the
  sources. The spec's Decimal Accumulator parses the base, adds the signed delta and
  returns the new value, with no rounding beyond fixed-point addition.
\<close>

definition addToTotal :: "decimal \<Rightarrow> decimal \<Rightarrow> decimal" where
  "addToTotal base delta = base + delta"

text \<open>
  \<^verbatim>\<open>Cart.findById(cart_id).populate('items')\<close>: every reference that resolves is replaced
  by its document; a reference that does not resolve is dropped from the loaded array.
\<close>

fun populate_items :: "(object_id \<times> cart_item) list \<Rightarrow> object_id list \<Rightarrow> (object_id \<times> cart_item) list" where
  "populate_items tbl [] = []"
| "populate_items tbl (i # ids) =
     (case map_of tbl i of
        None \<Rightarrow> populate_items tbl ids
      | Some it \<Rightarrow> (i, it) # populate_items tbl ids)"

text \<open>\<^verbatim>\<open>CartItem.find({ product_id, cart_id })\<close>.\<close>

definition find_cart_items :: "store \<Rightarrow> object_id \<Rightarrow> object_id \<Rightarrow> (object_id \<times> cart_item) list" where
  "find_cart_items s pid cid =
     filter (\<lambda>(i, it). product_id it = pid \<and> cart_id it = cid) (cart_items s)"

text \<open>
  The search loop of \<^verbatim>\<open>removeProductFromCart\<close>:
  \<^verbatim>\<open>for (let i = 0; i < cart.items.length; i++) if (cart.items[i]._id == cart_item._id) index = i\<close>.
  It runs over the whole array, so the last match wins and \<open>- 1\<close> stays when there is none.
\<close>

fun find_index_loop :: "object_id \<Rightarrow> (object_id \<times> cart_item) list \<Rightarrow> nat \<Rightarrow> int \<Rightarrow> int" where
  "find_index_loop iid [] i index = index"
| "find_index_loop iid (x # xs) i index =
     find_index_loop iid xs (Suc i) (if fst x = iid then int i else index)"

text \<open>
  \<^verbatim>\<open>Array.prototype.splice(index, 1)\<close>: a negative start counts from the end (and stops at
  0), a start beyond the end is the end; one element is removed where there is one.
\<close>

definition splice1 :: "int \<Rightarrow> 'a list \<Rightarrow> 'a list" where
  "splice1 index xs =
     (let len = int (length xs);
          start = (if index < 0 then max (len + index) 0 else min index len)
      in take (nat start) xs @ drop (Suc (nat start)) xs)"

definition cart_object_of :: "object_id \<Rightarrow> rendered list \<Rightarrow> cart \<Rightarrow> cart_object" where
  "cart_object_of cid its crt =
     \<lparr>obj_id = cid, obj_items = its, obj_total = cart.total crt, obj_completed = completed crt\<rparr>"

definition render_docs :: "(object_id \<times> cart_item) list \<Rightarrow> rendered list" where
  "render_docs xs = map (\<lambda>(i, it). DocText i it) xs"

section \<open>Operations of \<^verbatim>\<open>routes/graphql.js\<close>\<close>

text \<open>\<^verbatim>\<open>getCart\<close> returns the literal \<^verbatim>\<open>completed: false\<close>.\<close>

definition getCart :: "object_id \<Rightarrow> store \<Rightarrow> error + cart_object" where
  "getCart cid s =
     (case map_of (carts s) cid of
        None \<Rightarrow> Inl (CartNotFound cid)
      | Some crt \<Rightarrow>
          Inr \<lparr>obj_id = cid,
               obj_items = render_docs (populate_items (cart_items s) (items crt)),
               obj_total = cart.total crt,
               obj_completed = False\<rparr>)"

definition createCart :: "store \<Rightarrow> cart_object \<times> store" where
  "createCart s =
     (let cid = next_id s;
          crt = \<lparr>items = [], cart.total = 0, completed = False\<rparr>
      in (cart_object_of cid (map IdText (items crt)) crt,
          s\<lparr>carts := AList.update cid crt (carts s), next_id := Suc cid\<rparr>))"

text \<open>
  \<^verbatim>\<open>createProduct\<close>. The schema requires \<^verbatim>\<open>title\<close>: the awaited \<^verbatim>\<open>save()\<close> rejects the
  empty string and stores nothing. A \<^verbatim>\<open>price\<close> is cast from a number to its text, which is
  never empty.
\<close>

definition createProduct :: "string \<Rightarrow> decimal \<Rightarrow> int \<Rightarrow> store \<Rightarrow> (error + object_id \<times> product) \<times> store" where
  "createProduct ttl prc cnt s =
     (let pid = next_id s;
          prd = \<lparr>title = ttl, price = prc, inventory_count = cnt\<rparr>
      in if ttl = [] then (Inl ValidationError, s\<lparr>next_id := Suc pid\<rparr>)
         else (Inr (pid, prd),
               s\<lparr>products := AList.update pid prd (products s), next_id := Suc pid\<rparr>))"

subsection \<open>Writes that are not awaited\<close>

text \<open>
  \<^verbatim>\<open>createCart\<close>, \<^verbatim>\<open>createProduct\<close> and the product loop of \<^verbatim>\<open>completeCart\<close> await their
  \<^verbatim>\<open>save()\<close>: the write is in the store when the call goes on. The other writes,
  \<^verbatim>\<open>cart_item.save()\<close>, \<^verbatim>\<open>cart_item.remove()\<close> and \<^verbatim>\<open>cart.save()\<close> in
  \<^verbatim>\<open>addProductToCart\<close>, \<^verbatim>\<open>removeProductFromCart\<close> and \<^verbatim>\<open>completeCart\<close>, are not awaited:
  the call issues them and returns, and they land on the store later. A call is therefore
  modelled by what it returns, the store as it is when it returns, and the writes it has
  issued, in the order of the source.

  A line item is written or removed as a whole document. \<^verbatim>\<open>cart.save()\<close> on a loaded
  cart writes the paths that the call changed: the new total, a pushed reference, the item
  array after \<^verbatim>\<open>splice\<close>, the flag.
\<close>

datatype cart_change =
    PushItem object_id
  | SetItems "object_id list"
  | SetTotal decimal
  | SetCompleted bool

fun change_cart :: "cart_change \<Rightarrow> cart \<Rightarrow> cart" where
  "change_cart (PushItem i) crt = crt\<lparr>items := items crt @ [i]\<rparr>"
| "change_cart (SetItems ids) crt = crt\<lparr>items := ids\<rparr>"
| "change_cart (SetTotal t) crt = crt\<lparr>cart.total := t\<rparr>"
| "change_cart (SetCompleted b) crt = crt\<lparr>completed := b\<rparr>"

datatype db_write =
    SaveCartItem object_id cart_item
  | RemoveCartItem object_id
  | SaveCart object_id "cart_change list"

fun land :: "db_write \<Rightarrow> store \<Rightarrow> store" where
  "land (SaveCartItem i it) s = s\<lparr>cart_items := AList.update i it (cart_items s)\<rparr>"
| "land (RemoveCartItem i) s = s\<lparr>cart_items := AList.delete i (cart_items s)\<rparr>"
| "land (SaveCart c changes) s =
     (case map_of (carts s) c of
        None \<Rightarrow> s
      | Some crt \<Rightarrow> s\<lparr>carts := AList.update c (fold change_cart changes crt) (carts s)\<rparr>)"

type_synonym call_result = "(error + cart_object) \<times> store \<times> db_write list"

text \<open>
  \<^verbatim>\<open>removeProductFromCart\<close>. The cart is loaded with its items populated, the line item
  with its product populated; \<^verbatim>\<open>cart_item.product_id.price\<close> on a missing product is the
  \<open>TypeError\<close>. After \<^verbatim>\<open>splice\<close> the cart's item array is written back whole; the assignment
  \<^verbatim>\<open>cart.items[index] = cart_item\<close> of the other branch replaces a loaded document by the
  updated one and leaves the stored references as they are. Nothing is awaited after the
  reads, so the store is returned as it was read, with the writes in flight.
\<close>

definition removeProductFromCart_call :: "object_id \<Rightarrow> object_id \<Rightarrow> int \<Rightarrow> store \<Rightarrow> call_result" where
  "removeProductFromCart_call pid cid q s =
     (if q \<le> 0 then (Inl (InvalidQuantity q), s, [])
      else case map_of (carts s) cid of
        None \<Rightarrow> (Inl (CartNotFound cid), s, [])
      | Some crt \<Rightarrow>
          (case find_cart_items s pid cid of
             [] \<Rightarrow> (Inl ItemNotInCart, s, [])
           | (iid, it0) # _ \<Rightarrow>
               (case map_of (products s) (product_id it0) of
                  None \<Rightarrow> (Inl TypeError, s, [])
                | Some prd \<Rightarrow>
                    (let loaded = populate_items (cart_items s) (items crt);
                         it = it0\<lparr>qty := qty it0 - q,
                                 cart_item.total :=
                                   addToTotal (cart_item.total it0) (- 1 * price prd * of_int q)\<rparr>;
                         index = find_index_loop iid loaded 0 (- 1)
                     in if qty it \<le> 0 then
                          (let loaded' = splice1 index loaded;
                               crt' = crt\<lparr>items := map fst loaded',
                                          cart.total :=
                                            addToTotal (cart.total crt)
                                              (- 1 * of_int (q + qty it) * price prd)\<rparr>
                           in (Inr (cart_object_of cid (render_docs loaded') crt'),
                               s,
                               [RemoveCartItem iid,
                                SaveCart cid [SetItems (items crt'), SetTotal (cart.total crt')]]))
                        else
                          (let loaded' = (if 0 \<le> index then loaded[nat index := (iid, it)] else loaded);
                               crt' = crt\<lparr>cart.total :=
                                            addToTotal (cart.total crt)
                                              (- 1 * of_int q * price prd)\<rparr>
                           in (Inr (cart_object_of cid (render_docs loaded') crt'),
                               s,
                               [SaveCartItem iid it,
                                SaveCart cid [SetTotal (cart.total crt')]]))))))"

text \<open>
  \<^verbatim>\<open>addProductToCart\<close>. There is no test of \<^verbatim>\<open>cart.completed\<close> and none of
  \<^verbatim>\<open>product.inventory_count\<close>. A new line item takes its id when it is constructed, is
  pushed onto the loaded array and its reference is pushed in the cart's write; an
  existing line item is written to its own collection only, so the loaded array (and the
  returned text) still holds the document as it was read.
\<close>

definition addProductToCart_call :: "object_id \<Rightarrow> object_id \<Rightarrow> int \<Rightarrow> store \<Rightarrow> call_result" where
  "addProductToCart_call pid cid q s =
     (if q \<le> 0 then (Inl (InvalidQuantity q), s, [])
      else case map_of (carts s) cid of
        None \<Rightarrow> (Inl (CartNotFound cid), s, [])
      | Some crt \<Rightarrow>
          (case map_of (products s) pid of
             None \<Rightarrow> (Inl (ProductNotFound pid), s, [])
           | Some prd \<Rightarrow>
               (let loaded = populate_items (cart_items s) (items crt);
                    crt' = crt\<lparr>cart.total := addToTotal (cart.total crt) (price prd * of_int q)\<rparr>
                in case find_cart_items s pid cid of
                     (iid, it0) # _ \<Rightarrow>
                       (let it = it0\<lparr>qty := qty it0 + q,
                                    cart_item.total :=
                                      addToTotal (cart_item.total it0) (price prd * of_int q)\<rparr>
                        in (Inr (cart_object_of cid (render_docs loaded) crt'),
                            s,
                            [SaveCartItem iid it, SaveCart cid [SetTotal (cart.total crt')]]))
                   | [] \<Rightarrow>
                       (let iid = next_id s;
                            it = \<lparr>product_id = pid, cart_id = cid, qty = q,
                                  cart_item.total = addToTotal 0 (price prd * of_int q)\<rparr>;
                            crt'' = crt'\<lparr>items := items crt @ [iid]\<rparr>
                        in (Inr (cart_object_of cid (render_docs (loaded @ [(iid, it)])) crt''),
                            s\<lparr>next_id := Suc iid\<rparr>,
                            [SaveCartItem iid it,
                             SaveCart cid [PushItem iid, SetTotal (cart.total crt')]])))))"

text \<open>
  The first loop of \<^verbatim>\<open>completeCart\<close>: each reference of the cart is resolved with its
  product populated and checked against the product's inventory; the loop only reads.
\<close>

fun check_inventory :: "store \<Rightarrow> object_id list \<Rightarrow> error + cart_item list" where
  "check_inventory s [] = Inr []"
| "check_inventory s (i # ids) =
     (case map_of (cart_items s) i of
        None \<Rightarrow> Inl DanglingCartItem
      | Some crt_item \<Rightarrow>
          (case map_of (products s) (product_id crt_item) of
             None \<Rightarrow> Inl TypeError
           | Some prd \<Rightarrow>
               if inventory_count prd < qty crt_item
               then Inl (InsufficientInventory (product_id crt_item) (inventory_count prd) (qty crt_item))
               else (case check_inventory s ids of
                       Inl e \<Rightarrow> Inl e
                     | Inr rest \<Rightarrow> Inr (crt_item # rest))))"

text \<open>
  The second loop: each product is read again, decremented and saved on its own, awaited.
  An error here keeps the writes already made.
\<close>

fun update_inventories :: "cart_item list \<Rightarrow> store \<Rightarrow> error option \<times> store" where
  "update_inventories [] s = (None, s)"
| "update_inventories (crt_item # rest) s =
     (case map_of (products s) (product_id crt_item) of
        None \<Rightarrow> (Some NonExistingProduct, s)
      | Some prd \<Rightarrow>
          update_inventories rest
            (s\<lparr>products :=
                 AList.update (product_id crt_item)
                   (prd\<lparr>inventory_count := inventory_count prd - qty crt_item\<rparr>)
                   (products s)\<rparr>))"

text \<open>\<^verbatim>\<open>completeCart\<close>; its last \<^verbatim>\<open>cart.save()\<close> is not awaited.\<close>

definition completeCart_call :: "object_id \<Rightarrow> store \<Rightarrow> call_result" where
  "completeCart_call cid s =
     (case map_of (carts s) cid of
        None \<Rightarrow> (Inl (CartNotFound cid), s, [])
      | Some crt \<Rightarrow>
          if completed crt then (Inl (CartAlreadyCompleted cid), s, [])
          else (case check_inventory s (items crt) of
                  Inl e \<Rightarrow> (Inl e, s, [])
                | Inr crt_items \<Rightarrow>
                    (case update_inventories crt_items s of
                       (Some e, s') \<Rightarrow> (Inl e, s', [])
                     | (None, s') \<Rightarrow>
                         (let crt' = crt\<lparr>completed := True\<rparr>
                          in (Inr (cart_object_of cid (map IdText (items crt')) crt'),
                              s',
                              [SaveCart cid [SetCompleted True]])))))"

subsection \<open>A call with its writes landed\<close>

text \<open>
  The result of a call and the store once the writes it issued have landed, in the order
  of their issue and with no other call in between. This is the store that a caller sees
  who lets the writes land before the next call.
\<close>

definition landed :: "call_result \<Rightarrow> (error + cart_object) \<times> store" where
  "landed r = (case r of (res, s, writes) \<Rightarrow> (res, fold land writes s))"

definition removeProductFromCart :: "object_id \<Rightarrow> object_id \<Rightarrow> int \<Rightarrow> store \<Rightarrow> (error + cart_object) \<times> store" where
  "removeProductFromCart pid cid q s = landed (removeProductFromCart_call pid cid q s)"

definition addProductToCart :: "object_id \<Rightarrow> object_id \<Rightarrow> int \<Rightarrow> store \<Rightarrow> (error + cart_object) \<times> store" where
  "addProductToCart pid cid q s = landed (addProductToCart_call pid cid q s)"

definition completeCart :: "object_id \<Rightarrow> store \<Rightarrow> (error + cart_object) \<times> store" where
  "completeCart cid s = landed (completeCart_call cid s)"

section \<open>Predicates on stores\<close>

text \<open>
  Every reference in a cart's item list resolves to a stored line item whose product is
  stored.
\<close>

definition line_items_resolve :: "store \<Rightarrow> object_id list \<Rightarrow> bool" where
  "line_items_resolve s ids =
     list_all (\<lambda>i. case map_of (cart_items s) i of
                      None \<Rightarrow> False
                    | Some it \<Rightarrow> map_of (products s) (product_id it) \<noteq> None) ids"

text \<open>The line item \<open>i\<close> asks for more than its product has.\<close>

definition exceeds_inventory :: "store \<Rightarrow> object_id \<Rightarrow> bool" where
  "exceeds_inventory s i =
     (case map_of (cart_items s) i of
        None \<Rightarrow> False
      | Some it \<Rightarrow>
          (case map_of (products s) (product_id it) of
             None \<Rightarrow> False
           | Some prd \<Rightarrow> inventory_count prd < qty it))"

text \<open>The line items a cart's references resolve to, in the cart's order.\<close>

definition line_items :: "store \<Rightarrow> object_id list \<Rightarrow> cart_item list" where
  "line_items s ids = map snd (populate_items (cart_items s) ids)"

text \<open>The quantity that the line items \<open>its\<close> ask of product \<open>p\<close> altogether.\<close>

definition ordered_qty :: "cart_item list \<Rightarrow> object_id \<Rightarrow> int" where
  "ordered_qty its p = sum_list (map qty (filter (\<lambda>it. product_id it = p) its))"

text \<open>The same store with every \<open>inventory_count\<close> replaced by its image under \<open>f\<close>.\<close>

definition with_inventories :: "(int \<Rightarrow> int) \<Rightarrow> store \<Rightarrow> store" where
  "with_inventories f s =
     s\<lparr>products := map (\<lambda>(i, p). (i, p\<lparr>inventory_count := f (inventory_count p)\<rparr>)) (products s)\<rparr>"

text \<open>The same store with the \<open>completed\<close> flag of every cart set to \<open>b\<close>.\<close>

definition with_completed :: "bool \<Rightarrow> store \<Rightarrow> store" where
  "with_completed b s = s\<lparr>carts := map (\<lambda>(i, c). (i, c\<lparr>completed := b\<rparr>)) (carts s)\<rparr>"

text \<open>
  The (cart, product) pair of a stored line item, and the invariant of the data model: no
  two stored line items have the same \<^verbatim>\<open>_id\<close>, and no two are for the same cart and
  product.
\<close>

definition line_key :: "object_id \<times> cart_item \<Rightarrow> object_id \<times> object_id" where
  "line_key x = (cart_id (snd x), product_id (snd x))"

definition one_line_per_product :: "store \<Rightarrow> bool" where
  "one_line_per_product s =
     (distinct (map fst (cart_items s)) \<and> distinct (map line_key (cart_items s)))"


text \<open>The live line items of a cart, \<^verbatim>\<open>CartItem.find({ cart_id })\<close>.\<close>

definition cart_lines :: "store \<Rightarrow> object_id \<Rightarrow> (object_id \<times> cart_item) list" where
  "cart_lines s c = filter (\<lambda>(i, it). cart_id it = c) (cart_items s)"

text \<open>
  Ids come from the generator: the line items have distinct ids below \<open>next_id\<close> and
  belong to carts with ids below \<open>next_id\<close>, so that a new cart or line item gets an id
  that nothing uses. \<open>item_ids_used\<close> is the part of it that every landed
  \<^verbatim>\<open>addProductToCart\<close> keeps.
\<close>

definition generated_ids :: "store \<Rightarrow> bool" where
  "generated_ids s =
     (distinct (map fst (cart_items s)) \<and>
      list_all (\<lambda>(i, it). i < next_id s \<and> cart_id it < next_id s) (cart_items s))"

definition item_ids_used :: "store \<Rightarrow> bool" where
  "item_ids_used s =
     (distinct (map fst (cart_items s)) \<and> list_all (\<lambda>(i, it). i < next_id s) (cart_items s))"


text \<open>Every stored line item has a positive quantity (an invariant of the data model).\<close>

definition quantities_positive :: "store \<Rightarrow> bool" where
  "quantities_positive s = list_all (\<lambda>(i, it). 0 < qty it) (cart_items s)"

text \<open>
  The stores that the operations produce. \<open>carts_linked\<close>: each cart references exactly
  its live line items, in their order. \<open>store_ok\<close> collects the invariants of the data
  model; it holds of the empty store and every mutation keeps it once its writes have
  landed, so it holds of every store that a sequence of operations reaches from the empty
  one when the writes of each operation land before the next begins. These are the
  reachable stores of the texts below.
\<close>

definition carts_linked :: "store \<Rightarrow> bool" where
  "carts_linked s = list_all (\<lambda>(c, crt). items crt = map fst (cart_lines s c)) (carts s)"

definition store_ok :: "store \<Rightarrow> bool" where
  "store_ok s =
     (generated_ids s \<and>
      distinct (map fst (carts s)) \<and> list_all (\<lambda>(c, crt). c < next_id s) (carts s) \<and>
      one_line_per_product s \<and> quantities_positive s \<and>
      list_all (\<lambda>(i, it). map_of (products s) (product_id it) \<noteq> None) (cart_items s) \<and>
      carts_linked s)"

definition empty_store :: store where
  "empty_store = \<lparr>products = [], carts = [], cart_items = [], next_id = 0\<rparr>"

datatype operation =
    CreateCart
  | CreateProduct string decimal int
  | AddProductToCart object_id object_id int
  | RemoveProductFromCart object_id object_id int
  | CompleteCart object_id

fun apply_operation :: "operation \<Rightarrow> store \<Rightarrow> store" where
  "apply_operation CreateCart s = snd (createCart s)"
| "apply_operation (CreateProduct ttl prc cnt) s = snd (createProduct ttl prc cnt s)"
| "apply_operation (AddProductToCart pid cid q) s = snd (addProductToCart pid cid q s)"
| "apply_operation (RemoveProductFromCart pid cid q) s = snd (removeProductFromCart pid cid q s)"
| "apply_operation (CompleteCart cid) s = snd (completeCart cid s)"

fun run :: "operation list \<Rightarrow> store \<Rightarrow> store" where
  "run [] s = s"
| "run (op # ops) s = run ops (apply_operation op s)"

section \<open>Example stores\<close>

definition oversubscribed_store :: store where
  "oversubscribed_store =
     \<lparr>products = [(0, \<lparr>title = ''P'', price = 10, inventory_count = 5\<rparr>),
                  (1, \<lparr>title = ''Q'', price = 5 / 2, inventory_count = 4\<rparr>)],
      carts = [(2, \<lparr>items = [3, 4], cart.total = 65, completed = False\<rparr>)],
      cart_items = [(3, \<lparr>product_id = 1, cart_id = 2, qty = 2, cart_item.total = 5\<rparr>),
                    (4, \<lparr>product_id = 0, cart_id = 2, qty = 6, cart_item.total = 60\<rparr>)],
      next_id = 5\<rparr>"

definition two_product_store :: store where
  "two_product_store =
     \<lparr>products = [(0, \<lparr>title = ''P'', price = 10, inventory_count = 5\<rparr>),
                  (1, \<lparr>title = ''Q'', price = 5 / 2, inventory_count = 4\<rparr>),
                  (5, \<lparr>title = ''R'', price = 1, inventory_count = 0\<rparr>)],
      carts = [(2, \<lparr>items = [3, 4], cart.total = 55, completed = False\<rparr>)],
      cart_items = [(3, \<lparr>product_id = 1, cart_id = 2, qty = 2, cart_item.total = 5\<rparr>),
                    (4, \<lparr>product_id = 0, cart_id = 2, qty = 5, cart_item.total = 50\<rparr>)],
      next_id = 6\<rparr>"

definition empty_cart_store :: store where
  "empty_cart_store =
     \<lparr>products = [(0, \<lparr>title = ''P'', price = 10, inventory_count = 5\<rparr>)],
      carts = [(1, \<lparr>items = [], cart.total = 0, completed = False\<rparr>)],
      cart_items = [], next_id = 2\<rparr>"

definition completed_store :: store where
  "completed_store =
     \<lparr>products = [(0, \<lparr>title = ''P'', price = 10, inventory_count = 0\<rparr>)],
      carts = [(1, \<lparr>items = [2], cart.total = 50, completed = True\<rparr>)],
      cart_items = [(2, \<lparr>product_id = 0, cart_id = 1, qty = 5, cart_item.total = 50\<rparr>)],
      next_id = 3\<rparr>"

definition one_line_store :: store where
  "one_line_store =
     \<lparr>products = [(0, \<lparr>title = ''P'', price = 10, inventory_count = 5\<rparr>)],
      carts = [(1, \<lparr>items = [2], cart.total = 50, completed = False\<rparr>)],
      cart_items = [(2, \<lparr>product_id = 0, cart_id = 1, qty = 5, cart_item.total = 50\<rparr>)],
      next_id = 3\<rparr>"

text \<open>
  The store that a second call reads when \<^verbatim>\<open>addProductToCart(0, 1, 3)\<close> on
  \<open>empty_cart_store\<close> has returned, its \<^verbatim>\<open>cart_item.save()\<close> has landed and its
  \<^verbatim>\<open>cart.save()\<close> has not; and the store after a second addition of 2 made there, once
  every write has landed in the order of its issue.
\<close>

definition stale_cart_store :: store where
  "stale_cart_store =
     \<lparr>products = [(0, \<lparr>title = ''P'', price = 10, inventory_count = 5\<rparr>)],
      carts = [(1, \<lparr>items = [], cart.total = 0, completed = False\<rparr>)],
      cart_items = [(2, \<lparr>product_id = 0, cart_id = 1, qty = 3, cart_item.total = 30\<rparr>)],
      next_id = 3\<rparr>"



section \<open>The operations with their writes landed\<close>

text \<open>
  Unfolded, the landed operations apply each write where the source issues it.
\<close>

lemma update_inventories_frame:
  "update_inventories its s = (r, s') \<Longrightarrow>
   carts s' = carts s \<and> cart_items s' = cart_items s \<and> next_id s' = next_id s"
  by (induction its arbitrary: s) (auto split: option.splits)

lemma cart_total_before_items:
  "crt\<lparr>items := ids, cart.total := t\<rparr> = crt\<lparr>cart.total := t, items := ids\<rparr>"
  by simp

lemma removeProductFromCart_landed:
  "removeProductFromCart pid cid q s =
     (if q \<le> 0 then (Inl (InvalidQuantity q), s)
      else case map_of (carts s) cid of
        None \<Rightarrow> (Inl (CartNotFound cid), s)
      | Some crt \<Rightarrow>
          (case find_cart_items s pid cid of
             [] \<Rightarrow> (Inl ItemNotInCart, s)
           | (iid, it0) # _ \<Rightarrow>
               (case map_of (products s) (product_id it0) of
                  None \<Rightarrow> (Inl TypeError, s)
                | Some prd \<Rightarrow>
                    (let loaded = populate_items (cart_items s) (items crt);
                         it = it0\<lparr>qty := qty it0 - q,
                                 cart_item.total :=
                                   addToTotal (cart_item.total it0) (- 1 * price prd * of_int q)\<rparr>;
                         index = find_index_loop iid loaded 0 (- 1)
                     in if qty it \<le> 0 then
                          (let loaded' = splice1 index loaded;
                               crt' = crt\<lparr>items := map fst loaded',
                                          cart.total :=
                                            addToTotal (cart.total crt)
                                              (- 1 * of_int (q + qty it) * price prd)\<rparr>
                           in (Inr (cart_object_of cid (render_docs loaded') crt'),
                               s\<lparr>cart_items := AList.delete iid (cart_items s),
                                 carts := AList.update cid crt' (carts s)\<rparr>))
                        else
                          (let loaded' = (if 0 \<le> index then loaded[nat index := (iid, it)] else loaded);
                               crt' = crt\<lparr>cart.total :=
                                            addToTotal (cart.total crt)
                                              (- 1 * of_int q * price prd)\<rparr>
                           in (Inr (cart_object_of cid (render_docs loaded') crt'),
                               s\<lparr>cart_items := AList.update iid it (cart_items s),
                                 carts := AList.update cid crt' (carts s)\<rparr>))))))"
  by (simp add: removeProductFromCart_def removeProductFromCart_call_def landed_def Let_def
        split: option.splits list.splits prod.splits)

lemma addProductToCart_landed:
  "addProductToCart pid cid q s =
     (if q \<le> 0 then (Inl (InvalidQuantity q), s)
      else case map_of (carts s) cid of
        None \<Rightarrow> (Inl (CartNotFound cid), s)
      | Some crt \<Rightarrow>
          (case map_of (products s) pid of
             None \<Rightarrow> (Inl (ProductNotFound pid), s)
           | Some prd \<Rightarrow>
               (let loaded = populate_items (cart_items s) (items crt);
                    crt' = crt\<lparr>cart.total := addToTotal (cart.total crt) (price prd * of_int q)\<rparr>
                in case find_cart_items s pid cid of
                     (iid, it0) # _ \<Rightarrow>
                       (let it = it0\<lparr>qty := qty it0 + q,
                                    cart_item.total :=
                                      addToTotal (cart_item.total it0) (price prd * of_int q)\<rparr>
                        in (Inr (cart_object_of cid (render_docs loaded) crt'),
                            s\<lparr>cart_items := AList.update iid it (cart_items s),
                              carts := AList.update cid crt' (carts s)\<rparr>))
                   | [] \<Rightarrow>
                       (let iid = next_id s;
                            it = \<lparr>product_id = pid, cart_id = cid, qty = q,
                                  cart_item.total = addToTotal 0 (price prd * of_int q)\<rparr>;
                            crt'' = crt'\<lparr>items := items crt @ [iid]\<rparr>
                        in (Inr (cart_object_of cid (render_docs (loaded @ [(iid, it)])) crt''),
                            s\<lparr>cart_items := AList.update iid it (cart_items s),
                              carts := AList.update cid crt'' (carts s),
                              next_id := Suc iid\<rparr>)))))"
  by (simp add: addProductToCart_def addProductToCart_call_def landed_def Let_def
        cart_total_before_items split: option.splits list.splits prod.splits)

lemma completeCart_landed:
  "completeCart cid s =
     (case map_of (carts s) cid of
        None \<Rightarrow> (Inl (CartNotFound cid), s)
      | Some crt \<Rightarrow>
          if completed crt then (Inl (CartAlreadyCompleted cid), s)
          else (case check_inventory s (items crt) of
                  Inl e \<Rightarrow> (Inl e, s)
                | Inr crt_items \<Rightarrow>
                    (case update_inventories crt_items s of
                       (Some e, s') \<Rightarrow> (Inl e, s')
                     | (None, s') \<Rightarrow>
                         (let crt' = crt\<lparr>completed := True\<rparr>
                          in (Inr (cart_object_of cid (map IdText (items crt')) crt'),
                              s'\<lparr>carts := AList.update cid crt' (carts s')\<rparr>)))))"
  by (auto simp: completeCart_def completeCart_call_def landed_def Let_def
        dest!: update_inventories_frame split: option.splits sum.splits prod.splits)

section \<open>Lemmas about the two passes of \<^verbatim>\<open>completeCart\<close>\<close>

lemma check_inventory_head_exceeds:
  "exceeds_inventory s i \<Longrightarrow>
   \<exists>p a n. check_inventory s (i # ids) = Inl (InsufficientInventory p a n) \<and> a < n"
proof -
  assume "exceeds_inventory s i"
  then obtain it prd where "map_of (cart_items s) i = Some it"
    and "map_of (products s) (product_id it) = Some prd"
    and "inventory_count prd < qty it"
    by (auto simp: exceeds_inventory_def split: option.splits)
  then show ?thesis by simp
qed

lemma check_inventory_tail_error:
  "check_inventory s ids = Inl e \<Longrightarrow> \<exists>e'. check_inventory s (i # ids) = Inl e'"
  by (simp split: option.splits)

lemma check_inventory_tail_insufficient:
  assumes "check_inventory s ids = Inl (InsufficientInventory p a n)" and "a < n"
    and "line_items_resolve s [i]"
  shows "\<exists>p a n. check_inventory s (i # ids) = Inl (InsufficientInventory p a n) \<and> a < n"
  using assms by (auto simp: line_items_resolve_def split: option.splits)

lemma check_inventory_fails:
  "\<exists>i\<in>set ids. exceeds_inventory s i \<Longrightarrow> \<exists>e. check_inventory s ids = Inl e"
proof (induction ids)
  case Nil
  then show ?case by simp
next
  case (Cons i ids)
  show ?case
  proof (cases "exceeds_inventory s i")
    case True
    then show ?thesis using check_inventory_head_exceeds by blast
  next
    case False
    with Cons.prems have "\<exists>j\<in>set ids. exceeds_inventory s j" by simp
    then obtain e where "check_inventory s ids = Inl e" using Cons.IH by blast
    then show ?thesis by (rule check_inventory_tail_error)
  qed
qed

lemma check_inventory_insufficient:
  "\<exists>i\<in>set ids. exceeds_inventory s i \<Longrightarrow> line_items_resolve s ids \<Longrightarrow>
   \<exists>p a n. check_inventory s ids = Inl (InsufficientInventory p a n) \<and> a < n"
proof (induction ids)
  case Nil
  then show ?case by simp
next
  case (Cons i ids)
  from Cons.prems(2) have res: "line_items_resolve s [i]" "line_items_resolve s ids"
    by (simp_all add: line_items_resolve_def)
  show ?case
  proof (cases "exceeds_inventory s i")
    case True
    then show ?thesis by (rule check_inventory_head_exceeds)
  next
    case False
    with Cons.prems have "\<exists>j\<in>set ids. exceeds_inventory s j" by simp
    then obtain p a n where "check_inventory s ids = Inl (InsufficientInventory p a n)" "a < n"
      using Cons.IH res(2) by blast
    then show ?thesis using res(1) by (rule check_inventory_tail_insufficient)
  qed
qed

lemma ordered_qty_Cons:
  "ordered_qty (it # its) p = (if product_id it = p then qty it else 0) + ordered_qty its p"
  by (simp add: ordered_qty_def)

lemma update_inventories_ok:
  "\<forall>it\<in>set its. map_of (products s) (product_id it) \<noteq> None \<Longrightarrow>
   fst (update_inventories its s) = None \<and>
   map_of (products (snd (update_inventories its s))) p =
     map_option (\<lambda>prd. prd\<lparr>inventory_count := inventory_count prd - ordered_qty its p\<rparr>)
       (map_of (products s) p)"
proof (induction its arbitrary: s)
  case Nil
  show ?case by (simp add: ordered_qty_def option.map_ident)
next
  case (Cons it its)
  from Cons.prems obtain prd where prd: "map_of (products s) (product_id it) = Some prd"
    by auto
  define s1 where "s1 = s\<lparr>products := AList.update (product_id it)
      (prd\<lparr>inventory_count := inventory_count prd - qty it\<rparr>) (products s)\<rparr>"
  have m1: "map_of (products s1) =
      (map_of (products s))(product_id it \<mapsto> prd\<lparr>inventory_count := inventory_count prd - qty it\<rparr>)"
    by (simp add: s1_def update_conv')
  have "\<forall>x\<in>set its. map_of (products s1) (product_id x) \<noteq> None"
    using Cons.prems by (simp add: m1)
  from Cons.IH [OF this]
  have ih: "fst (update_inventories its s1) = None"
    "map_of (products (snd (update_inventories its s1))) p =
       map_option (\<lambda>prd. prd\<lparr>inventory_count := inventory_count prd - ordered_qty its p\<rparr>)
         (map_of (products s1) p)"
    by simp_all
  have step: "update_inventories (it # its) s = update_inventories its s1"
    by (simp add: prd s1_def)
  show ?case
    unfolding step using ih prd by (cases "map_of (products s) p") (auto simp: m1 ordered_qty_Cons)
qed

lemma check_inventory_ok:
  "line_items_resolve s ids \<Longrightarrow> \<forall>i\<in>set ids. \<not> exceeds_inventory s i \<Longrightarrow>
   check_inventory s ids = Inr (line_items s ids)"
proof (induction ids)
  case Nil
  show ?case by (simp add: line_items_def)
next
  case (Cons i ids)
  from Cons.prems(1) obtain it prd where it: "map_of (cart_items s) i = Some it"
    and prd: "map_of (products s) (product_id it) = Some prd"
    and rest: "line_items_resolve s ids"
    by (auto simp: line_items_resolve_def split: option.splits)
  from Cons.prems(2) it prd have enough: "\<not> inventory_count prd < qty it"
    by (simp add: exceeds_inventory_def)
  from Cons.IH [OF rest] Cons.prems(2)
  have "check_inventory s ids = Inr (line_items s ids)" by simp
  with it prd enough show ?case by (simp add: line_items_def)
qed

lemma line_items_products:
  "line_items_resolve s ids \<Longrightarrow>
   \<forall>it\<in>set (line_items s ids). map_of (products s) (product_id it) \<noteq> None"
  by (induction ids) (auto simp: line_items_resolve_def line_items_def split: option.splits)

lemma line_items_origin:
  assumes "it \<in> set (line_items s ids)"
  obtains i where "i \<in> set ids" and "map_of (cart_items s) i = Some it"
  using assms by (induction ids) (auto simp: line_items_def split: option.splits)

lemma line_items_member:
  "i \<in> set ids \<Longrightarrow> map_of (cart_items s) i = Some it \<Longrightarrow> it \<in> set (line_items s ids)"
  by (induction ids) (auto simp: line_items_def split: option.splits)

lemma ordered_qty_absent:
  "p \<notin> product_id ` set its \<Longrightarrow> ordered_qty its p = 0"
  by (induction its) (auto simp: ordered_qty_Cons ordered_qty_def)

lemma ordered_qty_distinct:
  "distinct (map product_id its) \<Longrightarrow> it \<in> set its \<Longrightarrow> ordered_qty its (product_id it) = qty it"
proof (induction its)
  case Nil
  then show ?case by simp
next
  case (Cons x its)
  show ?case
  proof (cases "it = x")
    case True
    with Cons.prems(1) have "ordered_qty its (product_id it) = 0"
      by (intro ordered_qty_absent) simp
    with True show ?thesis by (simp add: ordered_qty_Cons)
  next
    case False
    with Cons.prems have "it \<in> set its" "product_id x \<noteq> product_id it" by auto
    with Cons show ?thesis by (simp add: ordered_qty_Cons)
  qed
qed

section \<open>Lemmas about \<^verbatim>\<open>addProductToCart\<close>\<close>

lemma map_of_with_inventories:
  "map_of (products (with_inventories f s)) p =
     map_option (\<lambda>prd. prd\<lparr>inventory_count := f (inventory_count prd)\<rparr>) (map_of (products s) p)"
  by (simp add: with_inventories_def map_of_map)

lemma with_inventories_frame:
  "carts (with_inventories f s) = carts s"
  "cart_items (with_inventories f s) = cart_items s"
  "next_id (with_inventories f s) = next_id s"
  "find_cart_items (with_inventories f s) pid cid = find_cart_items s pid cid"
  by (simp_all add: with_inventories_def find_cart_items_def)

lemma addProductToCart_products:
  "products (snd (addProductToCart pid cid q s)) = products s"
  by (simp add: addProductToCart_landed Let_def split: option.splits list.splits prod.splits)

lemma addProductToCart_succeeds:
  assumes "0 < q" and "map_of (carts s) cid = Some crt" and "map_of (products s) pid = Some prd"
  shows "\<exists>co. fst (addProductToCart pid cid q s) = Inr co"
  using assms
  by (simp add: addProductToCart_landed Let_def split: option.splits list.splits prod.splits)

lemma addProductToCart_with_inventories:
  "addProductToCart pid cid q (with_inventories f s) =
     (fst (addProductToCart pid cid q s), with_inventories f (snd (addProductToCart pid cid q s)))"
  by (simp add: addProductToCart_landed Let_def with_inventories_frame map_of_with_inventories
        split: option.splits list.splits prod.splits)
     (simp add: with_inventories_def)

section \<open>Lemmas about the \<open>completed\<close> flag\<close>

lemma map_of_with_completed:
  "map_of (carts (with_completed b s)) c =
     map_option (\<lambda>crt. crt\<lparr>completed := b\<rparr>) (map_of (carts s) c)"
  by (simp add: with_completed_def map_of_map)

lemma with_completed_frame:
  "products (with_completed b s) = products s"
  "cart_items (with_completed b s) = cart_items s"
  "next_id (with_completed b s) = next_id s"
  "find_cart_items (with_completed b s) pid cid = find_cart_items s pid cid"
  by (simp_all add: with_completed_def find_cart_items_def)

lemma map_completed_update:
  "map (\<lambda>(i, c). (i, c\<lparr>completed := b\<rparr>)) (AList.update k v xs) =
     AList.update k (v\<lparr>completed := b\<rparr>) (map (\<lambda>(i, c). (i, c\<lparr>completed := b\<rparr>)) xs)"
  by (induction xs) auto

lemma completed_update_last:
  "c\<lparr>completed := b, cart.total := t\<rparr> = c\<lparr>cart.total := t, completed := b\<rparr>"
  "c\<lparr>completed := b, items := xs\<rparr> = c\<lparr>items := xs, completed := b\<rparr>"
  by simp_all

lemma addProductToCart_with_completed:
  "snd (addProductToCart pid cid q (with_completed b s)) =
     with_completed b (snd (addProductToCart pid cid q s))"
  by (simp add: addProductToCart_landed Let_def with_completed_frame map_of_with_completed
        split: option.splits list.splits prod.splits)
     (auto simp: with_completed_def map_completed_update completed_update_last intro!: store.equality)

lemma removeProductFromCart_with_completed:
  "snd (removeProductFromCart pid cid q (with_completed b s)) =
     with_completed b (snd (removeProductFromCart pid cid q s))"
  by (simp add: removeProductFromCart_landed Let_def with_completed_frame map_of_with_completed
        split: option.splits list.splits prod.splits)
     (auto simp: with_completed_def map_completed_update completed_update_last intro!: store.equality)

lemma addProductToCart_completed:
  assumes "map_of (carts s) c = Some crt"
  shows "\<exists>crt'. map_of (carts (snd (addProductToCart pid cid q s))) c = Some crt' \<and>
           completed crt' = completed crt"
  using assms
  by (auto simp: addProductToCart_landed Let_def update_conv' split: option.splits list.splits prod.splits)

lemma removeProductFromCart_completed:
  assumes "map_of (carts s) c = Some crt"
  shows "\<exists>crt'. map_of (carts (snd (removeProductFromCart pid cid q s))) c = Some crt' \<and>
           completed crt' = completed crt"
  using assms
  by (auto simp: removeProductFromCart_landed Let_def update_conv' split: option.splits list.splits prod.splits)

section \<open>Lemmas about the search loop and \<^verbatim>\<open>splice\<close>\<close>

lemma find_index_loop_absent:
  "iid \<notin> fst ` set xs \<Longrightarrow> find_index_loop iid xs i index = index"
  by (induction xs arbitrary: i index) auto

lemma find_index_loop_present:
  "iid \<in> fst ` set xs \<Longrightarrow>
   \<exists>n<length xs. find_index_loop iid xs i index = int (i + n) \<and> fst (xs ! n) = iid"
proof (induction xs arbitrary: i index)
  case Nil
  then show ?case by simp
next
  case (Cons x xs)
  show ?case
  proof (cases "iid \<in> fst ` set xs")
    case True
    from Cons.IH [OF True, of "Suc i" "if fst x = iid then int i else index"]
    obtain n where "n < length xs"
      and "find_index_loop iid (x # xs) i index = int (i + Suc n)"
      and "fst ((x # xs) ! Suc n) = iid"
      by auto
    then show ?thesis by (intro exI [of _ "Suc n"]) simp
  next
    case False
    with Cons.prems have "fst x = iid" by auto
    with False show ?thesis
      by (intro exI [of _ 0]) (simp add: find_index_loop_absent)
  qed
qed

lemma splice1_at:
  "n < length xs \<Longrightarrow> splice1 (int n) xs = take n xs @ drop (Suc n) xs"
  by (simp add: splice1_def Let_def min_def)

lemma drop_one_distinct:
  "distinct ys \<Longrightarrow> n < length ys \<Longrightarrow> take n ys @ drop (Suc n) ys = filter (\<lambda>y. y \<noteq> ys ! n) ys"
proof (induction ys arbitrary: n)
  case Nil
  then show ?case by simp
next
  case (Cons y ys)
  show ?case
  proof (cases n)
    case 0
    from Cons.prems have "filter (\<lambda>z. z \<noteq> y) ys = ys"
      by (auto simp: filter_id_conv)
    with 0 show ?thesis by simp
  next
    case (Suc m)
    with Cons.prems have "m < length ys" "distinct ys" "ys ! m \<noteq> y" by auto
    with Cons.IH [of m] Suc show ?thesis by simp
  qed
qed

lemma populate_items_keys:
  "map fst (populate_items tbl ids) = filter (\<lambda>i. map_of tbl i \<noteq> None) ids"
  by (induction ids) (auto split: option.splits)

lemma splice1_found:
  assumes "distinct (map fst xs)" and "iid \<in> fst ` set xs"
  shows "map fst (splice1 (find_index_loop iid xs 0 (- 1)) xs) = filter (\<lambda>i. i \<noteq> iid) (map fst xs)"
proof -
  from find_index_loop_present [OF assms(2), of 0 "- 1"]
  obtain n where n: "n < length xs" "find_index_loop iid xs 0 (- 1) = int n" "fst (xs ! n) = iid"
    by auto
  have "map fst (splice1 (int n) xs) = take n (map fst xs) @ drop (Suc n) (map fst xs)"
    using n(1) by (simp add: splice1_at take_map drop_map)
  also have "\<dots> = filter (\<lambda>y. y \<noteq> map fst xs ! n) (map fst xs)"
    using assms(1) n(1) by (intro drop_one_distinct) simp_all
  finally show ?thesis using n by simp
qed

lemma find_cart_items_head:
  assumes "find_cart_items s pid cid = (iid, it0) # rest"
  shows "product_id it0 = pid" and "cart_id it0 = cid" and "(iid, it0) \<in> set (cart_items s)"
proof -
  have "(iid, it0) \<in> set (find_cart_items s pid cid)" by (simp add: assms)
  then show "product_id it0 = pid" and "cart_id it0 = cid" and "(iid, it0) \<in> set (cart_items s)"
    by (simp_all add: find_cart_items_def)
qed

section \<open>The branches of \<^verbatim>\<open>addProductToCart\<close> and \<^verbatim>\<open>removeProductFromCart\<close>\<close>

lemma line_key_pair [simp]: "line_key (i, it) = (cart_id it, product_id it)"
  by (simp add: line_key_def)

lemma set_update_subset:
  "set (AList.update k v xs) \<subseteq> insert (k, v) (set xs)"
  by (induction xs) auto

lemma update_same_key:
  "distinct (map fst xs) \<Longrightarrow> (k, v) \<in> set xs \<Longrightarrow> line_key (k, v') = line_key (k, v) \<Longrightarrow>
   map line_key (AList.update k v' xs) = map line_key xs"
proof (induction xs)
  case Nil
  then show ?case by simp
next
  case (Cons x xs)
  show ?case
  proof (cases "fst x = k")
    case True
    with Cons.prems have "x = (k, v)" by (cases x) (auto simp: image_iff)
    with Cons.prems(3) show ?thesis by simp
  next
    case False
    with Cons show ?thesis by auto
  qed
qed

lemma update_new_key:
  "distinct (map line_key xs) \<Longrightarrow> line_key (k, v) \<notin> line_key ` set xs \<Longrightarrow>
   distinct (map line_key (AList.update k v xs))"
proof (induction xs)
  case Nil
  then show ?case by simp
next
  case (Cons x xs)
  show ?case
  proof (cases "fst x = k")
    case True
    with Cons.prems show ?thesis by simp
  next
    case False
    have "line_key x \<notin> line_key ` set (AList.update k v xs)"
    proof
      assume "line_key x \<in> line_key ` set (AList.update k v xs)"
      then obtain y where y: "y \<in> set (AList.update k v xs)" "line_key y = line_key x" by auto
      with set_update_subset [of k v xs] consider "y = (k, v)" | "y \<in> set xs" by auto
      then show False
      proof cases
        case 1
        with y(2) Cons.prems(2) show False by simp
      next
        case 2
        then have "line_key y \<in> line_key ` set xs" by (rule imageI)
        with y(2) Cons.prems(1) show False by simp
      qed
    qed
    with False Cons show ?thesis by simp
  qed
qed

lemma find_cart_items_none:
  "find_cart_items s pid cid = [] \<Longrightarrow> (cid, pid) \<notin> line_key ` set (cart_items s)"
  by (auto simp: find_cart_items_def filter_empty_conv)


lemma addProductToCart_cases:
  obtains (fail) e where "addProductToCart pid cid q s = (Inl e, s)"
  | (existing) crt prd iid it0 rest co where "0 < q"
      and "map_of (carts s) cid = Some crt" and "map_of (products s) pid = Some prd"
      and "find_cart_items s pid cid = (iid, it0) # rest"
      and "addProductToCart pid cid q s =
             (Inr co,
              s\<lparr>cart_items :=
                  AList.update iid
                    (it0\<lparr>qty := qty it0 + q,
                         cart_item.total := cart_item.total it0 + price prd * of_int q\<rparr>)
                    (cart_items s),
                carts :=
                  AList.update cid (crt\<lparr>cart.total := cart.total crt + price prd * of_int q\<rparr>)
                    (carts s)\<rparr>)"
  | (new) crt prd co where "0 < q"
      and "map_of (carts s) cid = Some crt" and "map_of (products s) pid = Some prd"
      and "find_cart_items s pid cid = []"
      and "addProductToCart pid cid q s =
             (Inr co,
              s\<lparr>cart_items :=
                  AList.update (next_id s)
                    \<lparr>product_id = pid, cart_id = cid, qty = q,
                     cart_item.total = price prd * of_int q\<rparr>
                    (cart_items s),
                carts :=
                  AList.update cid
                    (crt\<lparr>cart.total := cart.total crt + price prd * of_int q,
                         items := items crt @ [next_id s]\<rparr>)
                    (carts s),
                next_id := Suc (next_id s)\<rparr>)"
proof (cases "q \<le> 0")
  case True
  then show ?thesis by (intro fail) (simp add: addProductToCart_landed)
next
  case pos: False
  show ?thesis
  proof (cases "map_of (carts s) cid")
    case None
    with pos show ?thesis by (intro fail) (simp add: addProductToCart_landed)
  next
    case crt: (Some crt)
    show ?thesis
    proof (cases "map_of (products s) pid")
      case None
      with pos crt show ?thesis by (intro fail) (simp add: addProductToCart_landed)
    next
      case prd: (Some prd)
      show ?thesis
      proof (cases "find_cart_items s pid cid")
        case Nil
        with pos crt prd show ?thesis
          by (intro new) (simp_all add: addProductToCart_landed Let_def addToTotal_def)
      next
        case (Cons x rest)
        obtain iid it0 where "x = (iid, it0)" by (cases x)
        with Cons pos crt prd show ?thesis
          by (intro existing) (simp_all add: addProductToCart_landed Let_def addToTotal_def)
      qed
    qed
  qed
qed

lemma removeProductFromCart_cases:
  obtains (fail) e where "removeProductFromCart pid cid q s = (Inl e, s)"
  | (deleted) crt prd iid it0 rest co where "0 < q"
      and "map_of (carts s) cid = Some crt" and "map_of (products s) pid = Some prd"
      and "find_cart_items s pid cid = (iid, it0) # rest" and "qty it0 \<le> q"
      and "removeProductFromCart pid cid q s =
             (Inr co,
              s\<lparr>cart_items := AList.delete iid (cart_items s),
                carts :=
                  AList.update cid
                    (crt\<lparr>items :=
                           map fst
                             (splice1
                                (find_index_loop iid (populate_items (cart_items s) (items crt)) 0 (- 1))
                                (populate_items (cart_items s) (items crt))),
                         cart.total := cart.total crt - of_int (qty it0) * price prd\<rparr>)
                    (carts s)\<rparr>)"
  | (kept) crt prd iid it0 rest co where "0 < q"
      and "map_of (carts s) cid = Some crt" and "map_of (products s) pid = Some prd"
      and "find_cart_items s pid cid = (iid, it0) # rest" and "q < qty it0"
      and "removeProductFromCart pid cid q s =
             (Inr co,
              s\<lparr>cart_items :=
                  AList.update iid
                    (it0\<lparr>qty := qty it0 - q,
                         cart_item.total := cart_item.total it0 - price prd * of_int q\<rparr>)
                    (cart_items s),
                carts :=
                  AList.update cid (crt\<lparr>cart.total := cart.total crt - price prd * of_int q\<rparr>)
                    (carts s)\<rparr>)"
proof (cases "q \<le> 0")
  case True
  then show ?thesis by (intro fail) (simp add: removeProductFromCart_landed)
next
  case pos: False
  show ?thesis
  proof (cases "map_of (carts s) cid")
    case None
    with pos show ?thesis by (intro fail) (simp add: removeProductFromCart_landed)
  next
    case crt: (Some crt)
    show ?thesis
    proof (cases "find_cart_items s pid cid")
      case Nil
      with pos crt show ?thesis by (intro fail) (simp add: removeProductFromCart_landed)
    next
      case (Cons x rest)
      obtain iid it0 where x: "x = (iid, it0)" by (cases x)
      with Cons have pid: "product_id it0 = pid" using find_cart_items_head(1) by blast
      show ?thesis
      proof (cases "map_of (products s) pid")
        case None
        with pos crt Cons x pid show ?thesis
          by (intro fail) (simp add: removeProductFromCart_landed)
      next
        case prd: (Some prd)
        show ?thesis
        proof (cases "qty it0 \<le> q")
          case True
          with pos crt Cons x pid prd show ?thesis
            by (intro deleted) (simp_all add: removeProductFromCart_landed Let_def addToTotal_def)
        next
          case False
          with pos crt Cons x pid prd
          have "\<exists>co. removeProductFromCart pid cid q s =
             (Inr co,
              s\<lparr>cart_items :=
                  AList.update iid
                    (it0\<lparr>qty := qty it0 - q,
                         cart_item.total := cart_item.total it0 - price prd * of_int q\<rparr>)
                    (cart_items s),
                carts :=
                  AList.update cid (crt\<lparr>cart.total := cart.total crt - price prd * of_int q\<rparr>)
                    (carts s)\<rparr>)"
            by (simp add: removeProductFromCart_landed Let_def addToTotal_def mult.commute)
          then obtain co where "removeProductFromCart pid cid q s =
             (Inr co,
              s\<lparr>cart_items :=
                  AList.update iid
                    (it0\<lparr>qty := qty it0 - q,
                         cart_item.total := cart_item.total it0 - price prd * of_int q\<rparr>)
                    (cart_items s),
                carts :=
                  AList.update cid (crt\<lparr>cart.total := cart.total crt - price prd * of_int q\<rparr>)
                    (carts s)\<rparr>)" ..
          with pos crt Cons x prd False show ?thesis
            by (intro kept [of crt prd iid it0 rest co]) simp_all
        qed
      qed
    qed
  qed
qed

lemma addProductToCart_unique:
  assumes "one_line_per_product s"
  shows "one_line_per_product (snd (addProductToCart pid cid q s))"
proof (cases pid cid q s rule: addProductToCart_cases)
  case (fail e)
  with assms show ?thesis by simp
next
  case (existing crt prd iid it0 rest co)
  from existing(4) have "(iid, it0) \<in> set (cart_items s)" by (rule find_cart_items_head)
  with assms existing(5) show ?thesis
    by (simp add: one_line_per_product_def distinct_update update_same_key)
next
  case (new crt prd co)
  from new(4) have "(cid, pid) \<notin> line_key ` set (cart_items s)" by (rule find_cart_items_none)
  with assms new(5) show ?thesis
    by (simp add: one_line_per_product_def distinct_update update_new_key)
qed

lemma removeProductFromCart_unique:
  assumes "one_line_per_product s"
  shows "one_line_per_product (snd (removeProductFromCart pid cid q s))"
proof (cases pid cid q s rule: removeProductFromCart_cases)
  case (fail e)
  with assms show ?thesis by simp
next
  case (deleted crt prd iid it0 rest co)
  with assms show ?thesis
    by (simp add: one_line_per_product_def distinct_delete AList.delete_eq distinct_map_filter)
next
  case (kept crt prd iid it0 rest co)
  from kept(4) have "(iid, it0) \<in> set (cart_items s)" by (rule find_cart_items_head)
  with assms kept(6) show ?thesis
    by (simp add: one_line_per_product_def distinct_update update_same_key)
qed



section \<open>Lemmas about totals\<close>

lemma update_fresh:
  "k \<notin> fst ` set xs \<Longrightarrow> AList.update k v xs = xs @ [(k, v)]"
  by (induction xs) auto

lemma update_append_notin:
  "k \<notin> fst ` set ys \<Longrightarrow> AList.update k v (ys @ zs) = ys @ AList.update k v zs"
  by (induction ys) auto

lemma update_split:
  assumes "distinct (map fst xs)" and "(k, v) \<in> set xs"
  obtains ys zs where "xs = ys @ (k, v) # zs" and "AList.update k v' xs = ys @ (k, v') # zs"
proof -
  from assms(2) obtain ys zs where xs: "xs = ys @ (k, v) # zs" by (auto dest: split_list)
  with assms(1) have "k \<notin> fst ` set ys" by auto
  then have "AList.update k v' xs = ys @ (k, v') # zs"
    by (simp add: xs update_append_notin)
  with xs show thesis by (rule that)
qed

lemma next_id_fresh:
  "item_ids_used s \<Longrightarrow> next_id s \<notin> fst ` set (cart_items s)"
  by (auto simp: item_ids_used_def list_all_iff)







section \<open>Lemmas about adding and then removing\<close>

lemma update_update:
  "AList.update k v (AList.update k v' xs) = AList.update k v xs"
  by (induction xs) auto

lemma update_restore:
  "map_of xs k = Some v \<Longrightarrow> AList.update k v (AList.update k v' xs) = xs"
  by (simp add: update_update update_triv)

lemma filter_update_head:
  "distinct (map fst xs) \<Longrightarrow> filter P xs = (k, v) # rest \<Longrightarrow> P (k, v') \<Longrightarrow>
   filter P (AList.update k v' xs) = (k, v') # rest"
proof (induction xs)
  case Nil
  then show ?case by simp
next
  case (Cons x xs)
  show ?case
  proof (cases "P x")
    case True
    with Cons.prems(2) have "x = (k, v)" "filter P xs = rest" by simp_all
    with Cons.prems(3) show ?thesis by simp
  next
    case False
    with Cons.prems(2) have rest: "filter P xs = (k, v) # rest" by simp
    then have "(k, v) \<in> set (filter P xs)" by simp
    then have "k \<in> fst ` set xs" by (auto simp: image_iff intro: bexI [of _ "(k, v)"])
    with Cons.prems(1) have "fst x \<noteq> k" by auto
    moreover from Cons.prems(1) have "distinct (map fst xs)" by simp
    ultimately show ?thesis using Cons.IH rest Cons.prems(3) False by simp
  qed
qed

lemma find_index_loop_append:
  "find_index_loop iid (xs @ ys) i index =
     find_index_loop iid ys (i + length xs) (find_index_loop iid xs i index)"
  by (induction xs arbitrary: i index) simp_all

lemma splice1_last:
  "splice1 (int (length xs)) (xs @ [x]) = xs"
  by (simp add: splice1_def Let_def)

lemma populate_items_resolved:
  "list_all (\<lambda>i. map_of tbl i \<noteq> None) ids \<Longrightarrow> map fst (populate_items tbl ids) = ids"
  by (induction ids) (auto split: option.splits)

lemma populate_items_append:
  "populate_items tbl (xs @ ys) = populate_items tbl xs @ populate_items tbl ys"
  by (induction xs) (auto split: option.splits)

lemma populate_items_extended:
  "list_all (\<lambda>i. map_of tbl i \<noteq> None) ids \<Longrightarrow>
   populate_items (tbl @ [(k, v)]) ids = populate_items tbl ids"
  by (induction ids) (auto simp: map_add_def split: option.splits)

lemma removeProductFromCart_kept:
  assumes "0 < q" and "map_of (carts s) cid = Some crt" and "map_of (products s) pid = Some prd"
    and "find_cart_items s pid cid = (iid, it0) # rest" and "q < qty it0"
  shows "\<exists>co. removeProductFromCart pid cid q s =
             (Inr co,
              s\<lparr>cart_items :=
                  AList.update iid
                    (it0\<lparr>qty := qty it0 - q,
                         cart_item.total := cart_item.total it0 - price prd * of_int q\<rparr>)
                    (cart_items s),
                carts :=
                  AList.update cid (crt\<lparr>cart.total := cart.total crt - price prd * of_int q\<rparr>)
                    (carts s)\<rparr>) \<and>
           obj_total co = cart.total crt - price prd * of_int q"
proof -
  from assms(4) have "product_id it0 = pid" by (rule find_cart_items_head)
  with assms show ?thesis
    by (simp add: removeProductFromCart_landed Let_def addToTotal_def mult.commute cart_object_of_def)
qed

lemma removeProductFromCart_deleted:
  assumes "0 < q" and "map_of (carts s) cid = Some crt" and "map_of (products s) pid = Some prd"
    and "find_cart_items s pid cid = (iid, it0) # rest" and "qty it0 \<le> q"
  shows "\<exists>co. removeProductFromCart pid cid q s =
             (Inr co,
              s\<lparr>cart_items := AList.delete iid (cart_items s),
                carts :=
                  AList.update cid
                    (crt\<lparr>items :=
                           map fst
                             (splice1
                                (find_index_loop iid (populate_items (cart_items s) (items crt)) 0 (- 1))
                                (populate_items (cart_items s) (items crt))),
                         cart.total := cart.total crt - of_int (qty it0) * price prd\<rparr>)
                    (carts s)\<rparr>) \<and>
           obj_total co = cart.total crt - of_int (qty it0) * price prd"
proof -
  from assms(4) have "product_id it0 = pid" by (rule find_cart_items_head)
  with assms show ?thesis
    by (simp add: removeProductFromCart_landed Let_def addToTotal_def cart_object_of_def)
qed

lemma add_then_remove_existing:
  assumes pos: "0 < q" and cart: "map_of (carts s) cid = Some crt"
    and prd: "map_of (products s) pid = Some prd"
    and ids: "distinct (map fst (cart_items s))"
    and found: "find_cart_items s pid cid = (iid, it0) # rest" and live: "0 < qty it0"
  shows "\<exists>co1 s1 co2. addProductToCart pid cid q s = (Inr co1, s1) \<and>
           removeProductFromCart pid cid q s1 = (Inr co2, s) \<and> obj_total co2 = cart.total crt"
proof -
  let ?it1 = "it0\<lparr>qty := qty it0 + q, cart_item.total := cart_item.total it0 + price prd * of_int q\<rparr>"
  let ?crt1 = "crt\<lparr>cart.total := cart.total crt + price prd * of_int q\<rparr>"
  define s1 where "s1 = s\<lparr>cart_items := AList.update iid ?it1 (cart_items s),
      carts := AList.update cid ?crt1 (carts s)\<rparr>"
  from found have it0: "product_id it0 = pid" "cart_id it0 = cid" "(iid, it0) \<in> set (cart_items s)"
    by (rule find_cart_items_head)+
  with ids have stored: "map_of (cart_items s) iid = Some it0" by simp
  have "\<exists>co1. addProductToCart pid cid q s = (Inr co1, s1)"
    using pos cart prd found
    by (simp add: addProductToCart_landed Let_def addToTotal_def s1_def)
  then obtain co1 where add: "addProductToCart pid cid q s = (Inr co1, s1)" ..
  have cart1: "map_of (carts s1) cid = Some ?crt1" by (simp add: s1_def update_conv')
  have prd1: "map_of (products s1) pid = Some prd" by (simp add: s1_def prd)
  have found1: "find_cart_items s1 pid cid = (iid, ?it1) # rest"
    using ids found it0(1,2)
    by (simp add: find_cart_items_def s1_def filter_update_head)
  have more: "q < qty ?it1" using live by simp
  from removeProductFromCart_kept [OF pos cart1 prd1 found1 more]
  obtain co2 where rem: "removeProductFromCart pid cid q s1 =
      (Inr co2,
       s1\<lparr>cart_items :=
            AList.update iid
              (?it1\<lparr>qty := qty ?it1 - q,
                     cart_item.total := cart_item.total ?it1 - price prd * of_int q\<rparr>)
              (cart_items s1),
          carts :=
            AList.update cid (?crt1\<lparr>cart.total := cart.total ?crt1 - price prd * of_int q\<rparr>)
              (carts s1)\<rparr>)"
    and tot: "obj_total co2 = cart.total ?crt1 - price prd * of_int q"
    by blast
  have "?it1\<lparr>qty := qty ?it1 - q,
             cart_item.total := cart_item.total ?it1 - price prd * of_int q\<rparr> = it0"
    by simp
  moreover have "?crt1\<lparr>cart.total := cart.total ?crt1 - price prd * of_int q\<rparr> = crt"
    by simp
  ultimately have "removeProductFromCart pid cid q s1 =
      (Inr co2,
       s1\<lparr>cart_items := AList.update iid it0 (cart_items s1),
          carts := AList.update cid crt (carts s1)\<rparr>)"
    using rem by simp
  moreover have "s1\<lparr>cart_items := AList.update iid it0 (cart_items s1),
          carts := AList.update cid crt (carts s1)\<rparr> = s"
    by (simp add: s1_def update_restore update_triv stored cart)
  ultimately have "removeProductFromCart pid cid q s1 = (Inr co2, s)" by simp
  with add tot show ?thesis by auto
qed

lemma add_then_remove_new:
  assumes pos: "0 < q" and cart: "map_of (carts s) cid = Some crt"
    and prd: "map_of (products s) pid = Some prd"
    and ids: "item_ids_used s"
    and refs: "list_all (\<lambda>i. map_of (cart_items s) i \<noteq> None) (items crt)"
    and none: "find_cart_items s pid cid = []"
  shows "\<exists>co1 s1 co2. addProductToCart pid cid q s = (Inr co1, s1) \<and>
           map_of (cart_items s1) (next_id s) =
             Some \<lparr>product_id = pid, cart_id = cid, qty = q,
                   cart_item.total = price prd * of_int q\<rparr> \<and>
           removeProductFromCart pid cid q s1 = (Inr co2, s\<lparr>next_id := Suc (next_id s)\<rparr>) \<and>
           obj_total co2 = cart.total crt \<and> next_id s \<notin> set (items crt)"
proof -
  let ?nid = "next_id s"
  let ?it = "\<lparr>product_id = pid, cart_id = cid, qty = q, cart_item.total = price prd * of_int q\<rparr>"
  let ?crt1 = "crt\<lparr>cart.total := cart.total crt + price prd * of_int q, items := items crt @ [?nid]\<rparr>"
  define s1 where "s1 = s\<lparr>cart_items := cart_items s @ [(?nid, ?it)],
      carts := AList.update cid ?crt1 (carts s), next_id := Suc ?nid\<rparr>"
  from ids have fresh: "?nid \<notin> fst ` set (cart_items s)" by (rule next_id_fresh)
  then have absent: "map_of (cart_items s) ?nid = None" by (simp add: map_of_eq_None_iff)
  with refs have unref: "?nid \<notin> set (items crt)" by (auto simp: list_all_iff)
  have "\<exists>co1. addProductToCart pid cid q s = (Inr co1, s1)"
    using pos cart prd none fresh
    by (simp add: addProductToCart_landed Let_def addToTotal_def s1_def update_fresh)
  then obtain co1 where add: "addProductToCart pid cid q s = (Inr co1, s1)" ..
  have new: "map_of (cart_items s1) ?nid = Some ?it" by (simp add: s1_def absent map_add_def)
  have cart1: "map_of (carts s1) cid = Some ?crt1" by (simp add: s1_def update_conv')
  have prd1: "map_of (products s1) pid = Some prd" by (simp add: s1_def prd)
  have found1: "find_cart_items s1 pid cid = (?nid, ?it) # []"
    using none by (simp add: find_cart_items_def s1_def)
  have all: "qty ?it \<le> q" by simp
  define loaded where "loaded = populate_items (cart_items s) (items crt)"
  have loaded1: "populate_items (cart_items s1) (items ?crt1) = loaded @ [(?nid, ?it)]"
  proof -
    have "populate_items (cart_items s1) (items crt @ [?nid]) =
        populate_items (cart_items s1) (items crt) @ populate_items (cart_items s1) [?nid]"
      by (rule populate_items_append)
    also have "populate_items (cart_items s1) (items crt) = loaded"
      using refs by (simp add: s1_def loaded_def populate_items_extended)
    also have "populate_items (cart_items s1) [?nid] = [(?nid, ?it)]"
      using new by simp
    finally show ?thesis by simp
  qed
  have keys: "map fst loaded = items crt"
    using refs by (simp add: loaded_def populate_items_resolved)
  then have "?nid \<notin> fst ` set loaded" using unref by (metis set_map)
  then have "find_index_loop ?nid (loaded @ [(?nid, ?it)]) 0 (- 1) = int (length loaded)"
    by (simp add: find_index_loop_append find_index_loop_absent)
  then have spliced: "splice1 (find_index_loop ?nid (loaded @ [(?nid, ?it)]) 0 (- 1))
      (loaded @ [(?nid, ?it)]) = loaded"
    by (simp add: splice1_last)
  from removeProductFromCart_deleted [OF pos cart1 prd1 found1 all]
  obtain co2 where rem: "removeProductFromCart pid cid q s1 =
      (Inr co2,
       s1\<lparr>cart_items := AList.delete ?nid (cart_items s1),
          carts :=
            AList.update cid
              (?crt1\<lparr>items :=
                      map fst
                        (splice1
                           (find_index_loop ?nid (populate_items (cart_items s1) (items ?crt1)) 0 (- 1))
                           (populate_items (cart_items s1) (items ?crt1))),
                    cart.total := cart.total ?crt1 - of_int (qty ?it) * price prd\<rparr>)
              (carts s1)\<rparr>)"
    and tot: "obj_total co2 = cart.total ?crt1 - of_int (qty ?it) * price prd"
    by blast
  have "?crt1\<lparr>items :=
                      map fst
                        (splice1
                           (find_index_loop ?nid (populate_items (cart_items s1) (items ?crt1)) 0 (- 1))
                           (populate_items (cart_items s1) (items ?crt1))),
                    cart.total := cart.total ?crt1 - of_int (qty ?it) * price prd\<rparr> = crt"
    unfolding loaded1 spliced keys by simp
  moreover have "AList.delete ?nid (cart_items s1) = cart_items s"
    using fresh by (simp add: s1_def AList.delete_eq filter_id_conv) force
  ultimately have "removeProductFromCart pid cid q s1 =
      (Inr co2, s1\<lparr>cart_items := cart_items s, carts := AList.update cid crt (carts s1)\<rparr>)"
    using rem by simp
  moreover have "s1\<lparr>cart_items := cart_items s, carts := AList.update cid crt (carts s1)\<rparr> =
      s\<lparr>next_id := Suc ?nid\<rparr>"
    by (simp add: s1_def update_restore update_triv cart)
  ultimately have "removeProductFromCart pid cid q s1 = (Inr co2, s\<lparr>next_id := Suc ?nid\<rparr>)"
    by simp
  with add new tot unref show ?thesis by auto
qed

lemma line_items_resolve_stored:
  "line_items_resolve s ids \<Longrightarrow> list_all (\<lambda>i. map_of (cart_items s) i \<noteq> None) ids"
  by (auto simp: line_items_resolve_def list_all_iff split: option.splits)

text \<open>
  When the writes of the addition have landed before the removal is made, the two calls
  give back the carts and the line items of the start.
\<close>

lemma add_then_remove_landed:
  assumes pos: "0 < q" and cart: "map_of (carts s) cid = Some crt"
    and prd: "map_of (products s) pid = Some prd"
    and ids: "item_ids_used s" and live: "quantities_positive s"
    and refs: "line_items_resolve s (items crt)"
  shows "\<exists>co1 s1 co2 s2. addProductToCart pid cid q s = (Inr co1, s1) \<and>
           removeProductFromCart pid cid q s1 = (Inr co2, s2) \<and>
           products s2 = products s \<and> carts s2 = carts s \<and> cart_items s2 = cart_items s \<and>
           obj_total co2 = cart.total crt \<and>
           (find_cart_items s pid cid = [] \<longrightarrow>
              map_of (cart_items s1) (next_id s) \<noteq> None \<and>
              map_of (cart_items s2) (next_id s) = None \<and>
              next_id s \<notin> set (items crt))"
proof (cases "find_cart_items s pid cid")
  case Nil
  from refs have "list_all (\<lambda>i. map_of (cart_items s) i \<noteq> None) (items crt)"
    by (rule line_items_resolve_stored)
  from add_then_remove_new [OF pos cart prd ids this Nil]
  obtain co1 s1 co2 where "addProductToCart pid cid q s = (Inr co1, s1)"
    and "map_of (cart_items s1) (next_id s) \<noteq> None"
    and "removeProductFromCart pid cid q s1 = (Inr co2, s\<lparr>next_id := Suc (next_id s)\<rparr>)"
    and "obj_total co2 = cart.total crt" and "next_id s \<notin> set (items crt)"
    by auto
  moreover from ids have "map_of (cart_items (s\<lparr>next_id := Suc (next_id s)\<rparr>)) (next_id s) = None"
    using next_id_fresh by (simp add: map_of_eq_None_iff)
  ultimately show ?thesis by (intro exI [of _ co1] exI [of _ s1] exI [of _ co2]
        exI [of _ "s\<lparr>next_id := Suc (next_id s)\<rparr>"]) simp
next
  case (Cons x rest)
  obtain iid it0 where x: "x = (iid, it0)" by (cases x)
  with Cons have found: "find_cart_items s pid cid = (iid, it0) # rest" by simp
  then have "(iid, it0) \<in> set (cart_items s)" by (rule find_cart_items_head)
  with live have "0 < qty it0" by (auto simp: quantities_positive_def list_all_iff)
  moreover from ids have "distinct (map fst (cart_items s))" by (simp add: item_ids_used_def)
  ultimately obtain co1 s1 co2 where "addProductToCart pid cid q s = (Inr co1, s1)"
    and "removeProductFromCart pid cid q s1 = (Inr co2, s)" and "obj_total co2 = cart.total crt"
    using add_then_remove_existing [OF pos cart prd _ found] by blast
  with found show ?thesis by (intro exI [of _ co1] exI [of _ s1] exI [of _ co2] exI [of _ s]) simp
qed

section \<open>The invariants hold in every reachable store\<close>

lemma list_all_update:
  "list_all P xs \<Longrightarrow> P (k, v) \<Longrightarrow> list_all P (AList.update k v xs)"
  using set_update_subset [of k v xs] by (auto simp: list_all_iff)

lemma list_all_update_other:
  "distinct (map fst xs) \<Longrightarrow> list_all (\<lambda>x. fst x \<noteq> k \<longrightarrow> P x) xs \<Longrightarrow> P (k, v) \<Longrightarrow>
   list_all P (AList.update k v xs)"
proof (induction xs)
  case Nil
  then show ?case by simp
next
  case (Cons x xs)
  show ?case
  proof (cases "fst x = k")
    case True
    with Cons.prems(1) have "k \<notin> fst ` set xs" by simp
    then have "\<forall>y\<in>set xs. fst y \<noteq> k" by (auto simp: image_iff)
    with Cons.prems(2) have "list_all P xs" by (simp add: list_all_iff)
    with True Cons.prems(3) show ?thesis by simp
  next
    case False
    with Cons show ?thesis by simp
  qed
qed

lemma map_of_stored:
  "map_of xs k = Some v \<Longrightarrow> k \<in> fst ` set xs"
  by (auto dest: map_of_SomeD intro: rev_image_eqI)

lemma carts_linked_cart:
  assumes "carts_linked s" and "map_of (carts s) c = Some crt"
  shows "items crt = map fst (cart_lines s c)"
  using assms by (auto simp: carts_linked_def list_all_iff dest: map_of_SomeD)

lemma cart_lines_cong:
  "cart_items s' = cart_items s \<Longrightarrow> cart_lines s' c = cart_lines s c"
  by (simp add: cart_lines_def)

lemma carts_linked_cong:
  "cart_items s' = cart_items s \<Longrightarrow> carts s' = carts s \<Longrightarrow> carts_linked s' = carts_linked s"
  by (simp add: carts_linked_def cart_lines_def)

lemma store_ok_empty: "store_ok empty_store"
  by (simp add: store_ok_def empty_store_def generated_ids_def one_line_per_product_def
        quantities_positive_def carts_linked_def)

lemma createCart_ok:
  assumes "store_ok s"
  shows "store_ok (snd (createCart s))"
proof -
  let ?crt = "\<lparr>items = [], cart.total = 0, completed = False\<rparr>"
  let ?s' = "s\<lparr>carts := AList.update (next_id s) ?crt (carts s), next_id := Suc (next_id s)\<rparr>"
  have s': "snd (createCart s) = ?s'" by (simp add: createCart_def Let_def)
  from assms have gen: "generated_ids s" and dist: "distinct (map fst (carts s))"
    and below: "list_all (\<lambda>(c, crt). c < next_id s) (carts s)"
    and one: "one_line_per_product s" and pos: "quantities_positive s"
    and prods: "list_all (\<lambda>(i, it). map_of (products s) (product_id it) \<noteq> None) (cart_items s)"
    and linked: "carts_linked s"
    by (simp_all add: store_ok_def)
  from gen have "generated_ids ?s'"
    by (auto simp: generated_ids_def list_all_iff)
  moreover from dist have "distinct (map fst (carts ?s'))" by (simp add: distinct_update)
  moreover from below have "list_all (\<lambda>(c, crt). c < next_id ?s') (carts ?s')"
    by (auto simp: list_all_iff dest!: subsetD [OF set_update_subset])
  moreover from one have "one_line_per_product ?s'" by (simp add: one_line_per_product_def)
  moreover from pos have "quantities_positive ?s'" by (simp add: quantities_positive_def)
  moreover from prods
  have "list_all (\<lambda>(i, it). map_of (products ?s') (product_id it) \<noteq> None) (cart_items ?s')"
    by simp
  moreover have "carts_linked ?s'"
  proof -
    from gen have "cart_lines s (next_id s) = []"
      by (auto simp: generated_ids_def cart_lines_def list_all_iff filter_empty_conv)
    with linked show ?thesis
      by (auto simp: carts_linked_def cart_lines_def intro!: list_all_update)
  qed
  ultimately show ?thesis unfolding s' store_ok_def by blast
qed

lemma createProduct_ok:
  assumes "store_ok s"
  shows "store_ok (snd (createProduct ttl prc cnt s))"
proof -
  let ?prd = "\<lparr>title = ttl, price = prc, inventory_count = cnt\<rparr>"
  define ps where
    "ps = (if ttl = [] then products s else AList.update (next_id s) ?prd (products s))"
  let ?s' = "s\<lparr>products := ps, next_id := Suc (next_id s)\<rparr>"
  have s': "snd (createProduct ttl prc cnt s) = ?s'"
    by (simp add: createProduct_def Let_def ps_def)
  have stored: "\<And>p. map_of (products s) p \<noteq> None \<Longrightarrow> map_of ps p \<noteq> None"
    by (simp add: ps_def update_conv')
  from assms have gen: "generated_ids s" and dist: "distinct (map fst (carts s))"
    and below: "list_all (\<lambda>(c, crt). c < next_id s) (carts s)"
    and one: "one_line_per_product s" and pos: "quantities_positive s"
    and prods: "list_all (\<lambda>(i, it). map_of (products s) (product_id it) \<noteq> None) (cart_items s)"
    and linked: "carts_linked s"
    by (simp_all add: store_ok_def)
  from gen have "generated_ids ?s'"
    by (auto simp: generated_ids_def list_all_iff)
  moreover from dist have "distinct (map fst (carts ?s'))" by simp
  moreover from below have "list_all (\<lambda>(c, crt). c < next_id ?s') (carts ?s')"
    by (auto simp: list_all_iff)
  moreover from one have "one_line_per_product ?s'" by (simp add: one_line_per_product_def)
  moreover from pos have "quantities_positive ?s'" by (simp add: quantities_positive_def)
  moreover from prods
  have "list_all (\<lambda>(i, it). map_of (products ?s') (product_id it) \<noteq> None) (cart_items ?s')"
    using stored by (auto simp: list_all_iff)
  moreover from linked have "carts_linked ?s'"
    by (simp add: carts_linked_def cart_lines_def)
  ultimately show ?thesis unfolding s' store_ok_def by blast
qed

lemma update_inventories_store:
  "update_inventories its s = (r, s') \<Longrightarrow> s' = s\<lparr>products := products s'\<rparr>"
  by (drule update_inventories_frame) (auto intro: store.equality)

lemma update_inventories_stored:
  "update_inventories its s = (r, s') \<Longrightarrow> map_of (products s) p \<noteq> None \<Longrightarrow>
   map_of (products s') p \<noteq> None"
proof (induction its arbitrary: s)
  case Nil
  then show ?case by simp
next
  case (Cons it its)
  show ?case
  proof (cases "map_of (products s) (product_id it)")
    case None
    with Cons.prems show ?thesis by simp
  next
    case (Some prd)
    let ?s1 = "s\<lparr>products := AList.update (product_id it)
        (prd\<lparr>inventory_count := inventory_count prd - qty it\<rparr>) (products s)\<rparr>"
    from Cons.prems(1) Some have "update_inventories its ?s1 = (r, s')" by simp
    moreover from Cons.prems(2) have "map_of (products ?s1) p \<noteq> None"
      by (simp add: update_conv')
    ultimately show ?thesis by (rule Cons.IH)
  qed
qed

lemma completeCart_store:
  obtains (same) ps where "snd (completeCart cid s) = s\<lparr>products := ps\<rparr>"
      and "\<And>p. map_of (products s) p \<noteq> None \<Longrightarrow> map_of ps p \<noteq> None"
  | (completed) ps crt where "map_of (carts s) cid = Some crt"
      and "snd (completeCart cid s) =
             s\<lparr>products := ps, carts := AList.update cid (crt\<lparr>completed := True\<rparr>) (carts s)\<rparr>"
      and "\<And>p. map_of (products s) p \<noteq> None \<Longrightarrow> map_of ps p \<noteq> None"
proof (cases "map_of (carts s) cid")
  case None
  then have "snd (completeCart cid s) = s\<lparr>products := products s\<rparr>"
    by (simp add: completeCart_landed)
  then show ?thesis by (rule same) simp
next
  case (Some crt)
  show ?thesis
  proof (cases "completed crt \<or> isl (check_inventory s (items crt))")
    case True
    with Some have "snd (completeCart cid s) = s\<lparr>products := products s\<rparr>"
      by (auto simp: completeCart_landed isl_def)
    then show ?thesis by (rule same) simp
  next
    case False
    then obtain its where chk: "check_inventory s (items crt) = Inr its" and opn: "\<not> completed crt"
      by (cases "check_inventory s (items crt)") auto
    obtain r s1 where upd: "update_inventories its s = (r, s1)"
      by (cases "update_inventories its s")
    from upd have s1: "s1 = s\<lparr>products := products s1\<rparr>" by (rule update_inventories_store)
    from upd have frame: "carts s1 = carts s" "cart_items s1 = cart_items s" "next_id s1 = next_id s"
      by (auto dest: update_inventories_frame)
    have stored: "\<And>p. map_of (products s) p \<noteq> None \<Longrightarrow> map_of (products s1) p \<noteq> None"
      using upd by (rule update_inventories_stored)
    show ?thesis
    proof (cases r)
      case None
      with Some opn chk upd
      have "snd (completeCart cid s) =
          s1\<lparr>carts := AList.update cid (crt\<lparr>completed := True\<rparr>) (carts s1)\<rparr>"
        by (simp add: completeCart_landed Let_def)
      also have "\<dots> = s\<lparr>products := products s1,
          carts := AList.update cid (crt\<lparr>completed := True\<rparr>) (carts s)\<rparr>"
        by (rule store.equality) (simp_all add: frame)
      finally show ?thesis using Some stored by (intro completed [of crt "products s1"]) simp_all
    next
      case (Some e)
      with \<open>map_of (carts s) cid = Some crt\<close> opn chk upd
      have "snd (completeCart cid s) = s1" by (simp add: completeCart_landed)
      with s1 have "snd (completeCart cid s) = s\<lparr>products := products s1\<rparr>" by simp
      then show ?thesis using stored by (rule same)
    qed
  qed
qed

lemma completeCart_ok:
  assumes "store_ok s"
  shows "store_ok (snd (completeCart cid s))"
proof -
  from assms have gen: "generated_ids s" and dist: "distinct (map fst (carts s))"
    and below: "list_all (\<lambda>(c, crt). c < next_id s) (carts s)"
    and one: "one_line_per_product s" and pos: "quantities_positive s"
    and prods: "list_all (\<lambda>(i, it). map_of (products s) (product_id it) \<noteq> None) (cart_items s)"
    and linked: "carts_linked s"
    by (simp_all add: store_ok_def)
  show ?thesis
  proof (cases cid s rule: completeCart_store)
    case (same ps)
    from prods same(2)
    have "list_all (\<lambda>(i, it). map_of ps (product_id it) \<noteq> None) (cart_items s)"
      by (auto simp: list_all_iff)
    with gen dist below one pos linked show ?thesis
      by (simp add: same(1) store_ok_def generated_ids_def one_line_per_product_def
            quantities_positive_def carts_linked_def cart_lines_def)
  next
    case (completed ps crt)
    let ?s' = "s\<lparr>products := ps, carts := AList.update cid (crt\<lparr>completed := True\<rparr>) (carts s)\<rparr>"
    from prods completed(3)
    have "list_all (\<lambda>(i, it). map_of (products ?s') (product_id it) \<noteq> None) (cart_items ?s')"
      by (auto simp: list_all_iff)
    moreover from completed(1) have cid: "(cid, crt) \<in> set (carts s)" by (rule map_of_SomeD)
    with below have "list_all (\<lambda>(c, crt). c < next_id ?s') (carts ?s')"
      by (auto simp: list_all_iff dest!: subsetD [OF set_update_subset])
    moreover from linked cid have "carts_linked ?s'"
      by (auto simp: carts_linked_def cart_lines_def list_all_iff dest!: subsetD [OF set_update_subset])
    moreover from gen have "generated_ids ?s'" by (simp add: generated_ids_def)
    moreover from dist have "distinct (map fst (carts ?s'))" by (simp add: distinct_update)
    moreover from one have "one_line_per_product ?s'" by (simp add: one_line_per_product_def)
    moreover from pos have "quantities_positive ?s'" by (simp add: quantities_positive_def)
    ultimately show ?thesis unfolding completed(2) store_ok_def by blast
  qed
qed

lemma addProductToCart_ok:
  assumes "store_ok s"
  shows "store_ok (snd (addProductToCart pid cid q s))"
proof -
  from assms have gen: "generated_ids s" and dist: "distinct (map fst (carts s))"
    and below: "list_all (\<lambda>(c, crt). c < next_id s) (carts s)"
    and one: "one_line_per_product s" and pos: "quantities_positive s"
    and prods: "list_all (\<lambda>(i, it). map_of (products s) (product_id it) \<noteq> None) (cart_items s)"
    and linked: "carts_linked s"
    by (simp_all add: store_ok_def)
  from gen have ids: "distinct (map fst (cart_items s))" by (simp add: generated_ids_def)
  let ?s' = "snd (addProductToCart pid cid q s)"
  have one': "one_line_per_product ?s'" using one by (rule addProductToCart_unique)
  show ?thesis
  proof (cases pid cid q s rule: addProductToCart_cases)
    case (fail e)
    with assms show ?thesis by simp
  next
    case (existing crt prd iid it0 rest co)
    let ?it = "it0\<lparr>qty := qty it0 + q, cart_item.total := cart_item.total it0 + price prd * of_int q\<rparr>"
    let ?crt = "crt\<lparr>cart.total := cart.total crt + price prd * of_int q\<rparr>"
    from existing(4) have it0: "(iid, it0) \<in> set (cart_items s)" by (rule find_cart_items_head)
    with ids obtain ys zs where xs: "cart_items s = ys @ (iid, it0) # zs"
      and xs': "AList.update iid ?it (cart_items s) = ys @ (iid, ?it) # zs"
      by (rule update_split)
    have s': "?s' = s\<lparr>cart_items := ys @ (iid, ?it) # zs,
        carts := AList.update cid ?crt (carts s)\<rparr>"
      by (simp add: existing(5) xs')
    from existing(2) have cid: "(cid, crt) \<in> set (carts s)" by (rule map_of_SomeD)
    have lines: "\<And>c. map fst (cart_lines ?s' c) = map fst (cart_lines s c)"
      by (simp add: s' cart_lines_def xs)
    from gen have "generated_ids ?s'" by (simp add: s' generated_ids_def xs)
    moreover from dist have "distinct (map fst (carts ?s'))" by (simp add: s' distinct_update)
    moreover from below cid have "list_all (\<lambda>(c, crt). c < next_id ?s') (carts ?s')"
      by (auto simp: s' list_all_iff dest!: subsetD [OF set_update_subset])
    moreover from pos existing(1) have "quantities_positive ?s'"
      by (simp add: s' quantities_positive_def xs)
    moreover from prods
    have "list_all (\<lambda>(i, it). map_of (products ?s') (product_id it) \<noteq> None) (cart_items ?s')"
      by (simp add: s' xs)
    moreover have "carts_linked ?s'"
    proof -
      from linked existing(2) have "items crt = map fst (cart_lines s cid)"
        by (rule carts_linked_cart)
      with linked have "list_all (\<lambda>(c, crt). items crt = map fst (cart_lines s c))
          (AList.update cid ?crt (carts s))"
        by (intro list_all_update) (simp_all add: carts_linked_def)
      then show ?thesis by (simp add: carts_linked_def lines) (simp add: s')
    qed
    ultimately show ?thesis using one' unfolding store_ok_def by blast
  next
    case (new crt prd co)
    let ?it = "\<lparr>product_id = pid, cart_id = cid, qty = q, cart_item.total = price prd * of_int q\<rparr>"
    let ?crt = "crt\<lparr>cart.total := cart.total crt + price prd * of_int q,
        items := items crt @ [next_id s]\<rparr>"
    from gen have "item_ids_used s" by (auto simp: generated_ids_def item_ids_used_def list_all_iff)
    then have "next_id s \<notin> fst ` set (cart_items s)" by (rule next_id_fresh)
    then have s': "?s' = s\<lparr>cart_items := cart_items s @ [(next_id s, ?it)],
        carts := AList.update cid ?crt (carts s), next_id := Suc (next_id s)\<rparr>"
      by (simp add: new(5) update_fresh)
    from new(2) have cid: "(cid, crt) \<in> set (carts s)" by (rule map_of_SomeD)
    with below have small: "cid < next_id s" by (auto simp: list_all_iff)
    from gen small \<open>next_id s \<notin> fst ` set (cart_items s)\<close> have "generated_ids ?s'"
      by (auto simp: s' generated_ids_def list_all_iff)
    moreover from dist have "distinct (map fst (carts ?s'))" by (simp add: s' distinct_update)
    moreover from below small have "list_all (\<lambda>(c, crt). c < next_id ?s') (carts ?s')"
      by (auto simp: s' list_all_iff dest!: subsetD [OF set_update_subset])
    moreover from pos new(1) have "quantities_positive ?s'"
      by (simp add: s' quantities_positive_def)
    moreover from prods new(3)
    have "list_all (\<lambda>(i, it). map_of (products ?s') (product_id it) \<noteq> None) (cart_items ?s')"
      by (simp add: s')
    moreover have "carts_linked ?s'"
    proof -
      from linked new(2) have "items crt = map fst (cart_lines s cid)"
        by (rule carts_linked_cart)
      then have "items ?crt = map fst (cart_lines ?s' cid)"
        by (simp add: s' cart_lines_def)
      moreover from linked
      have "list_all (\<lambda>x. fst x \<noteq> cid \<longrightarrow>
          (case x of (c, crt) \<Rightarrow> items crt = map fst (cart_lines ?s' c))) (carts s)"
        by (auto simp: carts_linked_def list_all_iff s' cart_lines_def)
      ultimately have "list_all (\<lambda>(c, crt). items crt = map fst (cart_lines ?s' c))
          (AList.update cid ?crt (carts s))"
        using dist by (intro list_all_update_other) simp_all
      then show ?thesis by (simp add: carts_linked_def) (simp add: s')
    qed
    ultimately show ?thesis using one' unfolding store_ok_def by blast
  qed
qed

lemma filter_delete_keys:
  "map fst (filter P (AList.delete k xs)) = filter (\<lambda>i. i \<noteq> k) (map fst (filter P xs))"
  by (induction xs) (auto simp: AList.delete_eq)

lemma cart_lines_delete:
  "map fst (cart_lines (s\<lparr>cart_items := AList.delete iid (cart_items s), carts := cs\<rparr>) c) =
     filter (\<lambda>i. i \<noteq> iid) (map fst (cart_lines s c))"
  by (simp add: cart_lines_def filter_delete_keys)

lemma removeProductFromCart_ok:
  assumes "store_ok s"
  shows "store_ok (snd (removeProductFromCart pid cid q s))"
proof -
  from assms have gen: "generated_ids s" and dist: "distinct (map fst (carts s))"
    and below: "list_all (\<lambda>(c, crt). c < next_id s) (carts s)"
    and one: "one_line_per_product s" and pos: "quantities_positive s"
    and prods: "list_all (\<lambda>(i, it). map_of (products s) (product_id it) \<noteq> None) (cart_items s)"
    and linked: "carts_linked s"
    by (simp_all add: store_ok_def)
  from gen have ids: "distinct (map fst (cart_items s))" by (simp add: generated_ids_def)
  let ?s' = "snd (removeProductFromCart pid cid q s)"
  have one': "one_line_per_product ?s'" using one by (rule removeProductFromCart_unique)
  show ?thesis
  proof (cases pid cid q s rule: removeProductFromCart_cases)
    case (fail e)
    with assms show ?thesis by simp
  next
    case (kept crt prd iid it0 rest co)
    let ?it = "it0\<lparr>qty := qty it0 - q, cart_item.total := cart_item.total it0 - price prd * of_int q\<rparr>"
    let ?crt = "crt\<lparr>cart.total := cart.total crt - price prd * of_int q\<rparr>"
    from kept(4) have it0: "(iid, it0) \<in> set (cart_items s)" by (rule find_cart_items_head)
    with ids obtain ys zs where xs: "cart_items s = ys @ (iid, it0) # zs"
      and xs': "AList.update iid ?it (cart_items s) = ys @ (iid, ?it) # zs"
      by (rule update_split)
    have s': "?s' = s\<lparr>cart_items := ys @ (iid, ?it) # zs,
        carts := AList.update cid ?crt (carts s)\<rparr>"
      by (simp add: kept(6) xs')
    from kept(2) have cid: "(cid, crt) \<in> set (carts s)" by (rule map_of_SomeD)
    have lines: "\<And>c. map fst (cart_lines ?s' c) = map fst (cart_lines s c)"
      by (simp add: s' cart_lines_def xs)
    from gen have "generated_ids ?s'" by (simp add: s' generated_ids_def xs)
    moreover from dist have "distinct (map fst (carts ?s'))" by (simp add: s' distinct_update)
    moreover from below cid have "list_all (\<lambda>(c, crt). c < next_id ?s') (carts ?s')"
      by (auto simp: s' list_all_iff dest!: subsetD [OF set_update_subset])
    moreover from pos kept(5) have "quantities_positive ?s'"
      by (simp add: s' quantities_positive_def xs)
    moreover from prods
    have "list_all (\<lambda>(i, it). map_of (products ?s') (product_id it) \<noteq> None) (cart_items ?s')"
      by (simp add: s' xs)
    moreover have "carts_linked ?s'"
    proof -
      from linked kept(2) have "items crt = map fst (cart_lines s cid)"
        by (rule carts_linked_cart)
      with linked have "list_all (\<lambda>(c, crt). items crt = map fst (cart_lines s c))
          (AList.update cid ?crt (carts s))"
        by (intro list_all_update) (simp_all add: carts_linked_def)
      then show ?thesis by (simp add: carts_linked_def lines) (simp add: s')
    qed
    ultimately show ?thesis using one' unfolding store_ok_def by blast
  next
    case (deleted crt prd iid it0 rest co)
    define loaded where "loaded = populate_items (cart_items s) (items crt)"
    let ?crt = "crt\<lparr>items := map fst (splice1 (find_index_loop iid loaded 0 (- 1)) loaded),
        cart.total := cart.total crt - of_int (qty it0) * price prd\<rparr>"
    have s': "?s' = s\<lparr>cart_items := AList.delete iid (cart_items s),
        carts := AList.update cid ?crt (carts s)\<rparr>"
      by (simp add: deleted(6) loaded_def)
    from deleted(4) have it0: "(iid, it0) \<in> set (cart_items s)" "cart_id it0 = cid"
      by (rule find_cart_items_head)+
    from deleted(2) have cid: "(cid, crt) \<in> set (carts s)" by (rule map_of_SomeD)
    from linked deleted(2) have its: "items crt = map fst (cart_lines s cid)"
      by (rule carts_linked_cart)
    have sub: "set (AList.delete iid (cart_items s)) \<subseteq> set (cart_items s)"
      by (auto simp: AList.delete_eq)
    have lines: "\<And>c. map fst (cart_lines ?s' c) = filter (\<lambda>i. i \<noteq> iid) (map fst (cart_lines s c))"
      unfolding s' by (rule cart_lines_delete)
    have crt': "items ?crt = filter (\<lambda>i. i \<noteq> iid) (items crt)"
    proof -
      have "list_all (\<lambda>i. map_of (cart_items s) i \<noteq> None) (items crt)"
        unfolding its list_all_iff
      proof
        fix i assume "i \<in> set (map fst (cart_lines s cid))"
        then have "i \<in> fst ` set (cart_items s)" by (auto simp: cart_lines_def)
        then show "map_of (cart_items s) i \<noteq> None" by (simp add: map_of_eq_None_iff)
      qed
      then have keys: "map fst loaded = items crt"
        unfolding loaded_def by (rule populate_items_resolved)
      from ids have "distinct (items crt)"
        unfolding its cart_lines_def by (rule distinct_map_filter)
      moreover from it0 have "iid \<in> set (items crt)"
        unfolding its by (auto simp: cart_lines_def image_iff intro!: bexI [of _ "(iid, it0)"])
      ultimately have "map fst (splice1 (find_index_loop iid loaded 0 (- 1)) loaded) =
          filter (\<lambda>i. i \<noteq> iid) (map fst loaded)"
        by (intro splice1_found) (simp_all add: keys del: set_map, simp add: keys [symmetric])
      then show ?thesis by (simp add: keys)
    qed
    from gen sub have "generated_ids ?s'"
      by (auto simp: s' generated_ids_def list_all_iff distinct_delete)
    moreover from dist have "distinct (map fst (carts ?s'))" by (simp add: s' distinct_update)
    moreover from below cid have "list_all (\<lambda>(c, crt). c < next_id ?s') (carts ?s')"
      by (auto simp: s' list_all_iff dest!: subsetD [OF set_update_subset])
    moreover from pos sub have "quantities_positive ?s'"
      by (auto simp: s' quantities_positive_def list_all_iff)
    moreover from prods sub
    have "list_all (\<lambda>(i, it). map_of (products ?s') (product_id it) \<noteq> None) (cart_items ?s')"
      by (auto simp: s' list_all_iff)
    moreover have "carts_linked ?s'"
    proof -
      have "items ?crt = map fst (cart_lines ?s' cid)"
        unfolding lines crt' its ..
      moreover have "list_all (\<lambda>x. fst x \<noteq> cid \<longrightarrow>
          (case x of (c, crt) \<Rightarrow> items crt = map fst (cart_lines ?s' c))) (carts s)"
        unfolding list_all_iff
      proof (intro ballI impI)
        fix x assume x: "x \<in> set (carts s)" and other: "fst x \<noteq> cid"
        obtain c crt_c where xc: "x = (c, crt_c)" by (cases x)
        with x linked have c: "items crt_c = map fst (cart_lines s c)"
          by (auto simp: carts_linked_def list_all_iff)
        have "iid \<notin> set (map fst (cart_lines s c))"
        proof
          assume "iid \<in> set (map fst (cart_lines s c))"
          then obtain it where "(iid, it) \<in> set (cart_items s)" "cart_id it = c"
            by (auto simp: cart_lines_def)
          with ids it0 have "it = it0" by (metis eq_key_imp_eq_value)
          with \<open>cart_id it = c\<close> it0(2) other xc show False by simp
        qed
        then have "filter (\<lambda>i. i \<noteq> iid) (map fst (cart_lines s c)) = map fst (cart_lines s c)"
          by (simp add: filter_id_conv) blast
        with c xc show "case x of (c, crt) \<Rightarrow> items crt = map fst (cart_lines ?s' c)"
          by (simp add: lines)
      qed
      ultimately have "list_all (\<lambda>(c, crt). items crt = map fst (cart_lines ?s' c))
          (AList.update cid ?crt (carts s))"
        using dist by (intro list_all_update_other) simp_all
      then show ?thesis by (simp add: carts_linked_def) (simp add: s')
    qed
    ultimately show ?thesis using one' unfolding store_ok_def by blast
  qed
qed

lemma apply_operation_ok:
  "store_ok s \<Longrightarrow> store_ok (apply_operation op s)"
  by (cases op)
     (simp_all add: createCart_ok createProduct_ok addProductToCart_ok removeProductFromCart_ok
        completeCart_ok)

lemma run_ok:
  "store_ok s \<Longrightarrow> store_ok (run ops s)"
  by (induction ops arbitrary: s) (simp_all add: apply_operation_ok)

lemma reachable_ok: "store_ok (run ops empty_store)"
  using store_ok_empty by (rule run_ok)

lemma populate_items_stored:
  "distinct (map fst xs) \<Longrightarrow> set ys \<subseteq> set xs \<Longrightarrow> populate_items xs (map fst ys) = ys"
  by (induction ys) auto

lemma store_ok_cart:
  assumes ok: "store_ok s" and cart: "map_of (carts s) cid = Some crt"
  shows "line_items_resolve s (items crt)" and "distinct (items crt)"
    and "distinct (map product_id (line_items s (items crt)))"
    and "find_cart_items s pid cid = (iid, it0) # rest \<Longrightarrow> iid \<in> set (items crt)"
proof -
  from ok have ids: "distinct (map fst (cart_items s))"
    and keys: "distinct (map line_key (cart_items s))"
    and prods: "list_all (\<lambda>(i, it). map_of (products s) (product_id it) \<noteq> None) (cart_items s)"
    and linked: "carts_linked s"
    by (simp_all add: store_ok_def generated_ids_def one_line_per_product_def)
  from linked cart have its: "items crt = map fst (cart_lines s cid)" by (rule carts_linked_cart)
  have sub: "set (cart_lines s cid) \<subseteq> set (cart_items s)" by (auto simp: cart_lines_def)
  from ids sub have loaded: "populate_items (cart_items s) (items crt) = cart_lines s cid"
    unfolding its by (rule populate_items_stored)
  show "line_items_resolve s (items crt)"
    unfolding line_items_resolve_def list_all_iff its
  proof
    fix i assume "i \<in> set (map fst (cart_lines s cid))"
    then obtain it where it: "(i, it) \<in> set (cart_items s)" using sub by auto
    with ids have "map_of (cart_items s) i = Some it" by simp
    moreover from prods it have "map_of (products s) (product_id it) \<noteq> None"
      by (auto simp: list_all_iff)
    ultimately show "case map_of (cart_items s) i of None \<Rightarrow> False
        | Some it \<Rightarrow> map_of (products s) (product_id it) \<noteq> None"
      by simp
  qed
  from ids show "distinct (items crt)"
    unfolding its cart_lines_def by (rule distinct_map_filter)
  show "distinct (map product_id (line_items s (items crt)))"
  proof -
    from keys have dist: "distinct (map line_key (cart_lines s cid))"
      unfolding cart_lines_def by (rule distinct_map_filter)
    define zs where "zs = map product_id (map snd (cart_lines s cid))"
    have "map line_key (cart_lines s cid) = map (Pair cid) zs"
      by (auto simp: zs_def cart_lines_def line_key_def)
    with dist have "distinct (map (Pair cid) zs)" by simp
    then have "distinct zs" by (simp add: distinct_map)
    then show ?thesis by (simp add: zs_def line_items_def loaded)
  qed
  show "iid \<in> set (items crt)" if "find_cart_items s pid cid = (iid, it0) # rest"
  proof -
    from that have "(iid, it0) \<in> set (cart_items s)" "cart_id it0 = cid"
      by (rule find_cart_items_head)+
    then have "(iid, it0) \<in> set (cart_lines s cid)" by (simp add: cart_lines_def)
    then show ?thesis unfolding its by force
  qed
qed

lemma store_ok_ids:
  assumes "store_ok s"
  shows "generated_ids s" and "item_ids_used s" and "quantities_positive s"
    and "one_line_per_product s"
  using assms by (auto simp: store_ok_def generated_ids_def item_ids_used_def list_all_iff)

section \<open>The example stores are reachable\<close>

text \<open>Each example store is what a short sequence of operations makes of the empty store.\<close>

lemmas run_defs =
  empty_store_def createCart_def createProduct_def addProductToCart_landed completeCart_landed
  find_cart_items_def addToTotal_def cart_object_of_def Let_def

lemma empty_cart_store_reachable:
  "run [CreateProduct ''P'' 10 5, CreateCart] empty_store = empty_cart_store"
  by (simp add: run_defs empty_cart_store_def)

lemma one_line_store_reachable:
  "run [CreateProduct ''P'' 10 5, CreateCart, AddProductToCart 0 1 5] empty_store = one_line_store"
  by (simp add: run_defs one_line_store_def)

lemma completed_store_reachable:
  "run [CreateProduct ''P'' 10 5, CreateCart, AddProductToCart 0 1 5, CompleteCart 1] empty_store =
     completed_store"
  by (simp add: run_defs completed_store_def)

lemma oversubscribed_store_reachable:
  "run [CreateProduct ''P'' 10 5, CreateProduct ''Q'' (5 / 2) 4, CreateCart,
        AddProductToCart 1 2 2, AddProductToCart 0 2 6] empty_store = oversubscribed_store"
  by (simp add: run_defs oversubscribed_store_def)

lemma two_product_store_reachable:
  "run [CreateProduct ''P'' 10 5, CreateProduct ''Q'' (5 / 2) 4, CreateCart,
        AddProductToCart 1 2 2, AddProductToCart 0 2 5, CreateProduct ''R'' 1 0] empty_store =
     two_product_store"
  by (simp add: run_defs two_product_store_def)

lemmas call_defs =
  addProductToCart_call_def removeProductFromCart_call_def find_cart_items_def addToTotal_def
  cart_object_of_def render_docs_def splice1_def Let_def

section \<open>Claims\<close>

subsection \<open>C1: validation before any decrement\<close>

text \<open>
  Claim C1. \<^verbatim>\<open>completeCart\<close> on an open cart with a line item whose \<open>qty\<close> exceeds the
  \<open>inventory_count\<close> of its product fails and leaves the whole store, every
  \<open>inventory_count\<close> included, as it was: the check loop runs to its end before the first
  decrement. When every reference of the cart resolves (line item and product), as it does
  in every reachable store (\<open>reachable_ok\<close>, \<open>store_ok_cart\<close>), the error is
  \<open>InsufficientInventory\<close>, carrying a count that is below the quantity.
\<close>

theorem completeCart_insufficient_inventory:
  assumes "map_of (carts s) cid = Some crt" and "\<not> completed crt"
    and "\<exists>i\<in>set (items crt). exceeds_inventory s i"
  shows "\<exists>e. completeCart cid s = (Inl e, s) \<and>
           (line_items_resolve s (items crt) \<longrightarrow>
              (\<exists>p a n. e = InsufficientInventory p a n \<and> a < n))"
proof (cases "line_items_resolve s (items crt)")
  case True
  with assms(3) obtain p a n where
    "check_inventory s (items crt) = Inl (InsufficientInventory p a n)" "a < n"
    using check_inventory_insufficient by blast
  with assms(1,2) show ?thesis by (simp add: completeCart_landed)
next
  case False
  from assms(3) obtain e where "check_inventory s (items crt) = Inl e"
    using check_inventory_fails by blast
  with assms(1,2) False show ?thesis by (simp add: completeCart_landed)
qed

theorem completeCart_insufficient_inventory_witness:
  "completeCart 2 oversubscribed_store = (Inl (InsufficientInventory 0 5 6), oversubscribed_store)
   \<and> (\<exists>e. completeCart 2 oversubscribed_store = (Inl e, oversubscribed_store) \<and>
           (line_items_resolve oversubscribed_store [3, 4] \<longrightarrow>
              (\<exists>p a n. e = InsufficientInventory p a n \<and> a < n)))"
  using completeCart_insufficient_inventory
    [of oversubscribed_store 2 "\<lparr>items = [3, 4], cart.total = 65, completed = False\<rparr>"]
  by (simp add: oversubscribed_store_def exceeds_inventory_def completeCart_landed)

subsection \<open>C2: completed carts\<close>

text \<open>
  Claim C2 says that a completed cart is not changed by \<^verbatim>\<open>addProductToCart\<close> and
  \<^verbatim>\<open>removeProductFromCart\<close>. Neither operation reads \<^verbatim>\<open>cart.completed\<close> before it writes:
  on the completed cart of \<open>completed_store\<close>, adding 2 of product 0 raises the line item
  to 7 and the total to 70, and removing 5 deletes the line item and sets the total to 0.
\<close>

theorem completed_cart_modified_counterexample:
  "map_of (carts completed_store) 1 = Some \<lparr>items = [2], cart.total = 50, completed = True\<rparr> \<and>
   map_of (cart_items completed_store) 2 =
     Some \<lparr>product_id = 0, cart_id = 1, qty = 5, cart_item.total = 50\<rparr> \<and>
   map_of (carts (snd (addProductToCart 0 1 2 completed_store))) 1 =
     Some \<lparr>items = [2], cart.total = 70, completed = True\<rparr> \<and>
   map_of (cart_items (snd (addProductToCart 0 1 2 completed_store))) 2 =
     Some \<lparr>product_id = 0, cart_id = 1, qty = 7, cart_item.total = 70\<rparr> \<and>
   map_of (carts (snd (removeProductFromCart 0 1 5 completed_store))) 1 =
     Some \<lparr>items = [], cart.total = 0, completed = True\<rparr> \<and>
   map_of (cart_items (snd (removeProductFromCart 0 1 5 completed_store))) 2 = None"
  by (simp add: completed_store_def addProductToCart_landed removeProductFromCart_landed
        find_cart_items_def addToTotal_def splice1_def Let_def AList.delete_eq)

text \<open>
  Claim C2, amended. \<^verbatim>\<open>addProductToCart\<close> and \<^verbatim>\<open>removeProductFromCart\<close> never reset the
  flag: a cart stored with \<open>completed = True\<close> is stored with \<open>completed = True\<close> after
  either, whatever the arguments. Neither tests the flag: the store they produce from a
  store whose flags were all set to \<open>b\<close> is the store they produce otherwise, with the
  flags set to \<open>b\<close>.
\<close>

theorem completed_flag_kept:
  assumes "map_of (carts s) c = Some crt" and "completed crt"
  shows "(\<exists>crt'. map_of (carts (snd (addProductToCart pid cid q s))) c = Some crt' \<and> completed crt') \<and>
         (\<exists>crt'. map_of (carts (snd (removeProductFromCart pid cid q s))) c = Some crt' \<and> completed crt') \<and>
         snd (addProductToCart pid cid q (with_completed b s)) =
           with_completed b (snd (addProductToCart pid cid q s)) \<and>
         snd (removeProductFromCart pid cid q (with_completed b s)) =
           with_completed b (snd (removeProductFromCart pid cid q s))"
  using addProductToCart_completed [OF assms(1), of pid cid q]
    removeProductFromCart_completed [OF assms(1), of pid cid q] assms(2)
    addProductToCart_with_completed removeProductFromCart_with_completed
  by auto

theorem completed_flag_kept_witness:
  "map_of (carts completed_store) 1 = Some \<lparr>items = [2], cart.total = 50, completed = True\<rparr> \<and>
   (\<exists>crt'. map_of (carts (snd (addProductToCart 0 1 2 completed_store))) 1 = Some crt' \<and> completed crt') \<and>
   (\<exists>crt'. map_of (carts (snd (removeProductFromCart 0 1 5 completed_store))) 1 = Some crt' \<and> completed crt')"
proof -
  have h1: "map_of (carts completed_store) 1 = Some \<lparr>items = [2], cart.total = 50, completed = True\<rparr>"
    by (simp add: completed_store_def)
  have h2: "completed \<lparr>items = [2], cart.total = 50, completed = True\<rparr>" by simp
  from completed_flag_kept [OF h1 h2, of 0 1 2] completed_flag_kept [OF h1 h2, of 0 1 5] h1
  show ?thesis by blast
qed

subsection \<open>C3: removing at least what is there\<close>

text \<open>
  Claim C3. \<^verbatim>\<open>removeProductFromCart\<close> with a positive \<open>q\<close>, on a stored cart whose line
  item for the product (the first that \<^verbatim>\<open>find\<close> returns) has a quantity \<open>qty it0 \<le> q\<close>,
  succeeds: the line item's document is deleted, its reference leaves the cart's item list
  (the cart lists it, and lists nothing twice) while the other resolving references stay,
  and the cart's total goes down by \<open>qty it0 * price\<close>, the quantity the line item had,
  since \<open>q + (qty it0 - q) = qty it0\<close>. In a reachable store the cart lists the line item
  and lists nothing twice (\<open>store_ok_cart\<close>).
\<close>

theorem removeProductFromCart_over_removal:
  assumes pos: "0 < q" and cart: "map_of (carts s) cid = Some crt"
    and found: "find_cart_items s pid cid = (iid, it0) # rest"
    and prd: "map_of (products s) pid = Some prd"
    and over: "qty it0 \<le> q"
    and member: "iid \<in> set (items crt)" and dist: "distinct (items crt)"
  shows "\<exists>co s' crt'. removeProductFromCart pid cid q s = (Inr co, s') \<and>
           map_of (cart_items s') iid = None \<and>
           map_of (carts s') cid = Some crt' \<and>
           items crt' = filter (\<lambda>i. i \<noteq> iid \<and> map_of (cart_items s) i \<noteq> None) (items crt) \<and>
           iid \<notin> set (items crt') \<and>
           cart.total crt' = cart.total crt - of_int (qty it0) * price prd \<and>
           obj_total co = cart.total crt - of_int (qty it0) * price prd"
proof -
  define loaded where "loaded = populate_items (cart_items s) (items crt)"
  define loaded' where "loaded' = splice1 (find_index_loop iid loaded 0 (- 1)) loaded"
  define crt' where "crt' = crt\<lparr>items := map fst loaded',
      cart.total := addToTotal (cart.total crt) (- 1 * of_int (q + (qty it0 - q)) * price prd)\<rparr>"
  define s' where "s' = s\<lparr>cart_items := AList.delete iid (cart_items s),
      carts := AList.update cid crt' (carts s)\<rparr>"
  from found have it0: "product_id it0 = pid" "(iid, it0) \<in> set (cart_items s)"
    by (rule find_cart_items_head)+
  have run: "removeProductFromCart pid cid q s = (Inr (cart_object_of cid (render_docs loaded') crt'), s')"
    using pos cart found prd over it0(1)
    by (simp add: removeProductFromCart_landed Let_def loaded_def loaded'_def crt'_def s'_def)
  from it0(2) have stored: "map_of (cart_items s) iid \<noteq> None"
    using weak_map_of_SomeI by fastforce
  have keys: "map fst loaded = filter (\<lambda>i. map_of (cart_items s) i \<noteq> None) (items crt)"
    by (simp add: loaded_def populate_items_keys)
  have "set (map fst loaded) = {i \<in> set (items crt). map_of (cart_items s) i \<noteq> None}"
    by (simp add: keys)
  with member stored have "iid \<in> fst ` set loaded" by simp
  moreover from dist have "distinct (map fst loaded)" by (simp add: keys)
  ultimately
  have "map fst loaded' = filter (\<lambda>i. i \<noteq> iid) (map fst loaded)"
    unfolding loaded'_def by (intro splice1_found)
  then have its: "items crt' = filter (\<lambda>i. i \<noteq> iid \<and> map_of (cart_items s) i \<noteq> None) (items crt)"
    by (simp add: crt'_def keys conj_commute)
  have tot: "cart.total crt' = cart.total crt - of_int (qty it0) * price prd"
    by (simp add: crt'_def addToTotal_def)
  have "map_of (cart_items s') iid = None" by (simp add: s'_def delete_conv')
  moreover have "map_of (carts s') cid = Some crt'" by (simp add: s'_def update_conv')
  moreover have "iid \<notin> set (items crt')" by (simp add: its)
  moreover have "obj_total (cart_object_of cid (render_docs loaded') crt') =
      cart.total crt - of_int (qty it0) * price prd"
    by (simp add: cart_object_of_def tot)
  ultimately show ?thesis using run its tot by blast
qed

theorem removeProductFromCart_over_removal_witness:
  "(0::int) < 7 \<and>
   map_of (carts one_line_store) 1 = Some \<lparr>items = [2], cart.total = 50, completed = False\<rparr> \<and>
   find_cart_items one_line_store 0 1 =
     [(2, \<lparr>product_id = 0, cart_id = 1, qty = 5, cart_item.total = 50\<rparr>)] \<and>
   map_of (products one_line_store) 0 = Some \<lparr>title = ''P'', price = 10, inventory_count = 5\<rparr> \<and>
   (\<exists>co s' crt'. removeProductFromCart 0 1 7 one_line_store = (Inr co, s') \<and>
      map_of (cart_items s') 2 = None \<and> map_of (carts s') 1 = Some crt' \<and>
      items crt' = [] \<and> cart.total crt' = 0 \<and> obj_total co = 0)"
proof -
  let ?crt = "\<lparr>items = [2], cart.total = 50, completed = False\<rparr>"
  let ?it = "\<lparr>product_id = 0, cart_id = 1, qty = 5, cart_item.total = 50\<rparr>"
  let ?prd = "\<lparr>title = ''P'', price = 10, inventory_count = 5\<rparr>"
  have h1: "(0::int) < 7" by simp
  have h2: "map_of (carts one_line_store) 1 = Some ?crt" by (simp add: one_line_store_def)
  have h3: "find_cart_items one_line_store 0 1 = (2, ?it) # []"
    by (simp add: one_line_store_def find_cart_items_def)
  have h4: "map_of (products one_line_store) 0 = Some ?prd" by (simp add: one_line_store_def)
  have h5: "qty ?it \<le> 7" by simp
  have h6: "2 \<in> set (items ?crt)" by simp
  have h7: "distinct (items ?crt)" by simp
  from removeProductFromCart_over_removal [OF h1 h2 h3 h4 h5 h6 h7]
  obtain co s' crt' where "removeProductFromCart 0 1 7 one_line_store = (Inr co, s')"
    and "map_of (cart_items s') 2 = None" and "map_of (carts s') 1 = Some crt'"
    and "items crt' = filter (\<lambda>i. i \<noteq> 2 \<and> map_of (cart_items one_line_store) i \<noteq> None) (items ?crt)"
    and "cart.total crt' = cart.total ?crt - of_int (qty ?it) * price ?prd"
    and "obj_total co = cart.total ?crt - of_int (qty ?it) * price ?prd"
    by blast
  then have "removeProductFromCart 0 1 7 one_line_store = (Inr co, s') \<and>
      map_of (cart_items s') 2 = None \<and> map_of (carts s') 1 = Some crt' \<and>
      items crt' = [] \<and> cart.total crt' = 0 \<and> obj_total co = 0"
    by simp
  with h1 h2 h3 h4 show ?thesis by blast
qed

subsection \<open>C4: the total after a sequence of additions\<close>





subsection \<open>C5: the record returned by \<^verbatim>\<open>getCart\<close>\<close>

text \<open>
  Claim C5 says that \<^verbatim>\<open>getCart\<close> returns the stored \<open>completed\<close> flag. The source returns
  the literal \<^verbatim>\<open>false\<close>, where every other operation returns \<^verbatim>\<open>cart.completed\<close>: on the
  completed cart of \<open>completed_store\<close> the returned flag is \<open>False\<close>.
\<close>

theorem getCart_completed_cart:
  "map_of (carts completed_store) 1 =
     Some \<lparr>items = [2], cart.total = 50, completed = True\<rparr> \<and>
   getCart 1 completed_store =
     Inr \<lparr>obj_id = 1,
          obj_items = [DocText 2 \<lparr>product_id = 0, cart_id = 1, qty = 5, cart_item.total = 50\<rparr>],
          obj_total = 50, obj_completed = False\<rparr>"
  by (simp add: completed_store_def getCart_def render_docs_def)

subsection \<open>C6: a successful completion\<close>

text \<open>
  Claim C6. \<^verbatim>\<open>completeCart\<close> on an open cart whose references all resolve, whose line
  items all pass the inventory check and are for distinct products (one line item per
  product, the data model's invariant) succeeds: the product of each line item loses
  exactly that line item's \<open>qty\<close> and ends at a count of at least 0, every other product
  is as before, the stored cart is completed, and if no count was negative before, none is
  afterwards. The first and the last hypothesis hold for every cart of a reachable store
  (\<open>store_ok_cart\<close>).
\<close>

theorem completeCart_decrements:
  assumes cart: "map_of (carts s) cid = Some crt" and opn: "\<not> completed crt"
    and res: "line_items_resolve s (items crt)"
    and enough: "\<forall>i\<in>set (items crt). \<not> exceeds_inventory s i"
    and one: "distinct (map product_id (line_items s (items crt)))"
  shows "\<exists>co s'. completeCart cid s = (Inr co, s') \<and> obj_completed co \<and>
           map_of (carts s') cid = Some (crt\<lparr>completed := True\<rparr>) \<and>
           (\<forall>i\<in>set (items crt). \<forall>it prd.
               map_of (cart_items s) i = Some it \<longrightarrow>
               map_of (products s) (product_id it) = Some prd \<longrightarrow>
               map_of (products s') (product_id it) =
                 Some (prd\<lparr>inventory_count := inventory_count prd - qty it\<rparr>) \<and>
               0 \<le> inventory_count prd - qty it) \<and>
           (\<forall>p. p \<notin> product_id ` set (line_items s (items crt)) \<longrightarrow>
               map_of (products s') p = map_of (products s) p) \<and>
           ((\<forall>p prd. map_of (products s) p = Some prd \<longrightarrow> 0 \<le> inventory_count prd) \<longrightarrow>
            (\<forall>p prd. map_of (products s') p = Some prd \<longrightarrow> 0 \<le> inventory_count prd))"
proof -
  let ?its = "line_items s (items crt)"
  define s1 where "s1 = snd (update_inventories ?its s)"
  let ?crt' = "crt\<lparr>completed := True\<rparr>"
  let ?s' = "s1\<lparr>carts := AList.update cid ?crt' (carts s1)\<rparr>"
  let ?co = "cart_object_of cid (map IdText (items ?crt')) ?crt'"
  have chk: "check_inventory s (items crt) = Inr ?its"
    using res enough by (rule check_inventory_ok)
  have prods: "\<forall>it\<in>set ?its. map_of (products s) (product_id it) \<noteq> None"
    using res by (rule line_items_products)
  have upd: "fst (update_inventories ?its s) = None"
    and after: "\<And>p. map_of (products s1) p =
       map_option (\<lambda>prd. prd\<lparr>inventory_count := inventory_count prd - ordered_qty ?its p\<rparr>)
         (map_of (products s) p)"
    using update_inventories_ok [OF prods] by (simp_all add: s1_def)
  have "update_inventories ?its s = (None, s1)"
    using upd by (simp add: prod_eq_iff s1_def)
  then have run: "completeCart cid s = (Inr ?co, ?s')"
    using cart opn chk by (simp add: completeCart_landed Let_def)
  have lines: "\<forall>i\<in>set (items crt). \<forall>it prd.
               map_of (cart_items s) i = Some it \<longrightarrow>
               map_of (products s) (product_id it) = Some prd \<longrightarrow>
               map_of (products ?s') (product_id it) =
                 Some (prd\<lparr>inventory_count := inventory_count prd - qty it\<rparr>) \<and>
               0 \<le> inventory_count prd - qty it"
  proof (intro ballI allI impI)
    fix i it prd
    assume i: "i \<in> set (items crt)" and it: "map_of (cart_items s) i = Some it"
      and prd: "map_of (products s) (product_id it) = Some prd"
    from i it have "it \<in> set ?its" by (rule line_items_member)
    with one have "ordered_qty ?its (product_id it) = qty it" by (rule ordered_qty_distinct)
    moreover from enough i it prd have "0 \<le> inventory_count prd - qty it"
      by (auto simp: exceeds_inventory_def)
    ultimately show "map_of (products ?s') (product_id it) =
                 Some (prd\<lparr>inventory_count := inventory_count prd - qty it\<rparr>) \<and>
               0 \<le> inventory_count prd - qty it"
      using prd by (simp add: after)
  qed
  have others: "\<forall>p. p \<notin> product_id ` set ?its \<longrightarrow> map_of (products ?s') p = map_of (products s) p"
  proof (intro allI impI)
    fix p assume "p \<notin> product_id ` set ?its"
    then have "ordered_qty ?its p = 0" by (rule ordered_qty_absent)
    then show "map_of (products ?s') p = map_of (products s) p"
      by (simp add: after option.map_ident)
  qed
  have nonneg: "(\<forall>p prd. map_of (products s) p = Some prd \<longrightarrow> 0 \<le> inventory_count prd) \<longrightarrow>
            (\<forall>p prd. map_of (products ?s') p = Some prd \<longrightarrow> 0 \<le> inventory_count prd)"
  proof (intro allI impI)
    fix p prd'
    assume before: "\<forall>p prd. map_of (products s) p = Some prd \<longrightarrow> 0 \<le> inventory_count prd"
      and p: "map_of (products ?s') p = Some prd'"
    show "0 \<le> inventory_count prd'"
    proof (cases "p \<in> product_id ` set ?its")
      case False
      with others p before show ?thesis by auto
    next
      case True
      then obtain it where it: "it \<in> set ?its" "product_id it = p" by auto
      from it(1) obtain i where i: "i \<in> set (items crt)" "map_of (cart_items s) i = Some it"
        by (rule line_items_origin)
      from prods it obtain prd where prd: "map_of (products s) (product_id it) = Some prd"
        by auto
      with lines i have "map_of (products ?s') (product_id it) =
          Some (prd\<lparr>inventory_count := inventory_count prd - qty it\<rparr>)"
        and "0 \<le> inventory_count prd - qty it" by blast+
      with p it show ?thesis by auto
    qed
  qed
  have flag: "map_of (carts ?s') cid = Some ?crt'" by (simp add: update_conv')
  have "obj_completed ?co" by (simp add: cart_object_of_def)
  with run flag lines others nonneg show ?thesis by blast
qed

theorem completeCart_decrements_witness:
  "map_of (carts two_product_store) 2 = Some \<lparr>items = [3, 4], cart.total = 55, completed = False\<rparr> \<and>
   line_items_resolve two_product_store [3, 4] \<and>
   \<not> exceeds_inventory two_product_store 3 \<and>
   \<not> exceeds_inventory two_product_store 4 \<and>
   distinct (map product_id (line_items two_product_store [3, 4])) \<and>
   (\<exists>co s'. completeCart 2 two_product_store = (Inr co, s') \<and> obj_completed co \<and>
      map_of (carts s') 2 = Some \<lparr>items = [3, 4], cart.total = 55, completed = True\<rparr> \<and>
      map_of (products s') 0 = Some \<lparr>title = ''P'', price = 10, inventory_count = 0\<rparr> \<and>
      map_of (products s') 1 = Some \<lparr>title = ''Q'', price = 5 / 2, inventory_count = 2\<rparr> \<and>
      map_of (products s') 5 = Some \<lparr>title = ''R'', price = 1, inventory_count = 0\<rparr>)"
proof -
  let ?crt = "\<lparr>items = [3, 4], cart.total = 55, completed = False\<rparr>"
  have h1: "map_of (carts two_product_store) 2 = Some ?crt"
    by (simp add: two_product_store_def)
  have h2: "\<not> completed ?crt" by simp
  have h3: "line_items_resolve two_product_store (items ?crt)"
    by (simp add: two_product_store_def line_items_resolve_def)
  have h4: "\<forall>i\<in>set (items ?crt). \<not> exceeds_inventory two_product_store i"
    by (simp add: two_product_store_def exceeds_inventory_def)
  have h5: "distinct (map product_id (line_items two_product_store (items ?crt)))"
    by (simp add: two_product_store_def line_items_def)
  from completeCart_decrements [OF h1 h2 h3 h4 h5]
  obtain co s' where run: "completeCart 2 two_product_store = (Inr co, s')" "obj_completed co"
    and flag: "map_of (carts s') 2 = Some (?crt\<lparr>completed := True\<rparr>)"
    and lines: "\<forall>i\<in>set (items ?crt). \<forall>it prd.
               map_of (cart_items two_product_store) i = Some it \<longrightarrow>
               map_of (products two_product_store) (product_id it) = Some prd \<longrightarrow>
               map_of (products s') (product_id it) =
                 Some (prd\<lparr>inventory_count := inventory_count prd - qty it\<rparr>) \<and>
               0 \<le> inventory_count prd - qty it"
    and others: "\<forall>p. p \<notin> product_id ` set (line_items two_product_store (items ?crt)) \<longrightarrow>
               map_of (products s') p = map_of (products two_product_store) p"
    by blast
  from lines have "map_of (products s') 0 = Some \<lparr>title = ''P'', price = 10, inventory_count = 0\<rparr>"
    and "map_of (products s') 1 = Some \<lparr>title = ''Q'', price = 5 / 2, inventory_count = 2\<rparr>"
    by (simp_all add: two_product_store_def)
  moreover from others have "map_of (products s') 5 = Some \<lparr>title = ''R'', price = 1, inventory_count = 0\<rparr>"
    by (simp add: two_product_store_def line_items_def)
  ultimately show ?thesis using h1 h3 h4 h5 run flag by auto
qed

subsection \<open>C7: one line item per cart and product\<close>



subsection \<open>C8: adding and removing the same quantity\<close>

text \<open>
  Claim C8 says that \<^verbatim>\<open>addProductToCart\<close> followed by \<^verbatim>\<open>removeProductFromCart\<close> with the
  same quantity restores the cart's total, and deletes a line item that the addition
  created. That holds when the writes of the addition have landed before the removal reads
  (\<open>add_then_remove_landed\<close>), but \<^verbatim>\<open>addProductToCart\<close> returns without awaiting
  \<^verbatim>\<open>cart_item.save()\<close> and \<^verbatim>\<open>cart.save()\<close>, where \<^verbatim>\<open>createCart\<close>, \<^verbatim>\<open>createProduct\<close> and the
  product loop of \<^verbatim>\<open>completeCart\<close> await theirs. On \<open>empty_cart_store\<close>, add 3 of product
  0 and remove 3, the removal reading the store where the line item has landed and the
  cart has not: it finds the line item, reads the cart with total 0, returns the total
  \<open>- 30\<close>, and when every write has landed the cart's total is \<open>- 30\<close>, not 0.
\<close>

theorem remove_reads_stale_cart:
  "addProductToCart_call 0 1 3 empty_cart_store =
     (Inr \<lparr>obj_id = 1,
           obj_items = [DocText 2 \<lparr>product_id = 0, cart_id = 1, qty = 3, cart_item.total = 30\<rparr>],
           obj_total = 30, obj_completed = False\<rparr>,
      empty_cart_store\<lparr>next_id := 3\<rparr>,
      [SaveCartItem 2 \<lparr>product_id = 0, cart_id = 1, qty = 3, cart_item.total = 30\<rparr>,
       SaveCart 1 [PushItem 2, SetTotal 30]]) \<and>
   land (SaveCartItem 2 \<lparr>product_id = 0, cart_id = 1, qty = 3, cart_item.total = 30\<rparr>)
     (empty_cart_store\<lparr>next_id := 3\<rparr>) = stale_cart_store \<and>
   removeProductFromCart_call 0 1 3 stale_cart_store =
     (Inr \<lparr>obj_id = 1, obj_items = [], obj_total = - 30, obj_completed = False\<rparr>,
      stale_cart_store,
      [RemoveCartItem 2, SaveCart 1 [SetItems [], SetTotal (- 30)]]) \<and>
   carts (fold land [SaveCart 1 [PushItem 2, SetTotal 30], RemoveCartItem 2,
                     SaveCart 1 [SetItems [], SetTotal (- 30)]] stale_cart_store) =
     [(1, \<lparr>items = [], cart.total = - 30, completed = False\<rparr>)]"
  by (simp add: call_defs empty_cart_store_def stale_cart_store_def AList.delete_eq)

subsection \<open>C9: no inventory check when adding\<close>

text \<open>
  Claim C9. \<^verbatim>\<open>addProductToCart\<close> with a positive quantity, a stored cart and a stored
  product succeeds whatever the product's \<open>inventory_count\<close> is, and leaves the product
  collection as it was. It does not read the counts either: run on a store whose counts
  were replaced by arbitrary other values, it gives the same result and the same store up
  to that replacement.
\<close>

theorem addProductToCart_no_inventory_check:
  assumes "0 < q" and "map_of (carts s) cid = Some crt" and "map_of (products s) pid = Some prd"
  shows "(\<exists>co s'. addProductToCart pid cid q s = (Inr co, s') \<and> products s' = products s) \<and>
         addProductToCart pid cid q (with_inventories f s) =
           (fst (addProductToCart pid cid q s),
            with_inventories f (snd (addProductToCart pid cid q s)))"
proof -
  from assms obtain co where "fst (addProductToCart pid cid q s) = Inr co"
    using addProductToCart_succeeds by blast
  then have "addProductToCart pid cid q s = (Inr co, snd (addProductToCart pid cid q s))"
    by (simp add: prod_eq_iff)
  then show ?thesis
    using addProductToCart_products [of pid cid q s] addProductToCart_with_inventories
    by blast
qed

theorem addProductToCart_no_inventory_check_witness:
  "(0::int) < 6 \<and>
   map_of (carts empty_cart_store) 1 = Some \<lparr>items = [], cart.total = 0, completed = False\<rparr> \<and>
   map_of (products empty_cart_store) 0 = Some \<lparr>title = ''P'', price = 10, inventory_count = 5\<rparr> \<and>
   (\<exists>co s'. addProductToCart 0 1 6 empty_cart_store = (Inr co, s') \<and>
      products s' = [(0, \<lparr>title = ''P'', price = 10, inventory_count = 5\<rparr>)] \<and>
      cart_items s' = [(2, \<lparr>product_id = 0, cart_id = 1, qty = 6, cart_item.total = 60\<rparr>)])"
proof -
  have h1: "(0::int) < 6" by simp
  have h2: "map_of (carts empty_cart_store) 1 = Some \<lparr>items = [], cart.total = 0, completed = False\<rparr>"
    by (simp add: empty_cart_store_def)
  have h3: "map_of (products empty_cart_store) 0 = Some \<lparr>title = ''P'', price = 10, inventory_count = 5\<rparr>"
    by (simp add: empty_cart_store_def)
  from addProductToCart_no_inventory_check [OF h1 h2 h3]
  obtain co s' where run: "addProductToCart 0 1 6 empty_cart_store = (Inr co, s')"
    and "products s' = products empty_cart_store"
    by blast
  moreover from run have "cart_items s' = [(2, \<lparr>product_id = 0, cart_id = 1, qty = 6, cart_item.total = 60\<rparr>)]"
    by (auto simp: addProductToCart_landed empty_cart_store_def find_cart_items_def addToTotal_def Let_def)
  ultimately show ?thesis using h2 h3 by (auto simp: empty_cart_store_def)
qed

subsection \<open>C10: completing an empty cart\<close>

text \<open>
  Claim C10. \<^verbatim>\<open>completeCart\<close> on an open cart with no items succeeds: the check and the decrement do
  nothing, the products are untouched, the stored cart becomes completed and the returned
  record has the empty item list and the cart's total.
\<close>

theorem completeCart_empty_cart:
  assumes "map_of (carts s) cid = Some crt" and "\<not> completed crt" and "items crt = []"
  shows "completeCart cid s =
           (Inr \<lparr>obj_id = cid, obj_items = [], obj_total = cart.total crt, obj_completed = True\<rparr>,
            s\<lparr>carts := AList.update cid (crt\<lparr>completed := True\<rparr>) (carts s)\<rparr>) \<and>
         products (snd (completeCart cid s)) = products s \<and>
         map_of (carts (snd (completeCart cid s))) cid = Some (crt\<lparr>completed := True\<rparr>)"
  using assms by (simp add: completeCart_landed cart_object_of_def update_conv')

theorem completeCart_empty_cart_witness:
  "completeCart 1 empty_cart_store =
     (Inr \<lparr>obj_id = 1, obj_items = [], obj_total = 0, obj_completed = True\<rparr>,
      \<lparr>products = [(0, \<lparr>title = ''P'', price = 10, inventory_count = 5\<rparr>)],
       carts = [(1, \<lparr>items = [], cart.total = 0, completed = True\<rparr>)],
       cart_items = [], next_id = 2\<rparr>)"
  using completeCart_empty_cart
    [of empty_cart_store 1 "\<lparr>items = [], cart.total = 0, completed = False\<rparr>"]
  by (simp add: empty_cart_store_def)

end
